theory Spec2Isabelle
  imports Main
begin

section \<open>Dependency graph engine (usr/src/agent/graphd/graph.c)\<close>

subsection \<open>Data model\<close>

text \<open>
  The header \<^verbatim>\<open>graphd.h\<close> is not among the sources; the types below are read off
  the uses in \<^verbatim>\<open>graph.c\<close>. A \<^verbatim>\<open>vertex_t *\<close> is an address (a natural number) into a
  store of vertices; an edge holds the addresses of its two ends. The lists of the C
  code (\<^verbatim>\<open>edge_list_t\<close>, \<^verbatim>\<open>vertex_list_t\<close>, the note queue) are HOL lists:
  \<^verbatim>\<open>_add\<close> appends at the tail, \<^verbatim>\<open>_lpush\<close> pushes at the head, \<^verbatim>\<open>_lpop\<close> pops the head.
\<close>

datatype vertex_type_t = V_SVC | V_INST | V_DEPGROUP

datatype S16DependencyGroupType =
  kS16RequireAll | kS16RequireAny | kS16OptionalAll | kS16ExcludeAll

datatype S16DependencyGroupRestartOnCondition =
  kS16RestartOnNone | kS16RestartOnError | kS16RestartOnRestart
  | kS16RestartOnRefresh | kS16RestartOnAny

datatype S16State =
  kS16StateUninitialised | kS16StateDisabled | kS16StateOffline
  | kS16StateOnline | kS16StateDegraded | kS16StateMaintenance

text \<open>\<^verbatim>\<open>satisfied_t\<close> (graph.c, lines 327-332): SATISFIED = 0, UNSATISFIED = 1,
  UNSATISFIABLE = 2.\<close>

datatype satisfied_t = SATISFIED | UNSATISFIED | UNSATISFIABLE

text \<open>
  How a run of the model can end without a result: the recursion budget of the model
  is used up (\<open>OutOfFuel\<close>; the C recursion has not returned within that depth), an
  \<^verbatim>\<open>assert\<close> fails and the process aborts (\<open>AssertFailed\<close>; the assertions are
  compiled in, \<^verbatim>\<open>setup_dep\<close> relies on the side effect of one).
\<close>

datatype error = OutOfFuel | AssertFailed

record S16Path =
  svc :: string
  inst :: "string option"

datatype edge_t = Edge (edge_from: nat) (edge_to: nat)

record vertex_t =
  path :: S16Path
  vtype :: vertex_type_t
  dg_type :: S16DependencyGroupType
  restart_on :: S16DependencyGroupRestartOnCondition
  state :: S16State
  is_setup :: bool
  is_enabled :: bool
  to_offline :: bool
  to_disable :: bool
  dependencies :: "edge_t list"
  dependents :: "edge_t list"

type_synonym vertex_store = "nat \<Rightarrow> vertex_t"

datatype s16note_type_t = N_ADMIN_REQ | N_STATE_CHANGE | N_RREQ

datatype s16note_sc_type_t =
  SC_ONLINE | SC_OFFLINE | SC_DISABLED | SC_DEGRADED | SC_MAINTENANCE

record s16note_t =
  note_type :: s16note_type_t
  sub_type :: s16note_sc_type_t
  note_path :: S16Path
  reason :: int

definition s16note_new ::
  "s16note_type_t \<Rightarrow> s16note_sc_type_t \<Rightarrow> S16Path \<Rightarrow> int \<Rightarrow> s16note_t" where
  "s16note_new nt st p r = \<lparr>note_type = nt, sub_type = st, note_path = p, reason = r\<rparr>"

text \<open>
  Modelled from the spec: the enumerators of
  \<^verbatim>\<open>S16DependencyGroupRestartOnCondition\<close> are declared in a header that is not among
  the sources. The spec orders them None < Error < Restart < Refresh < Any, and the
  comment in \<^verbatim>\<open>vtx_notify_stop\<close> gives kS16RestartOnError = 1 and
  kS16RestartOnRestart = 2.
\<close>

fun restart_on_val :: "S16DependencyGroupRestartOnCondition \<Rightarrow> int" where
  "restart_on_val kS16RestartOnNone = 0"
| "restart_on_val kS16RestartOnError = 1"
| "restart_on_val kS16RestartOnRestart = 2"
| "restart_on_val kS16RestartOnRefresh = 3"
| "restart_on_val kS16RestartOnAny = 4"

subsection \<open>Edges and note emission\<close>

text \<open>\<^verbatim>\<open>vtx_edge_add\<close> (lines 63-67): two sequential list appends; the second reads
  the store the first has written (the two vertices may be the same one).\<close>

definition vtx_edge_add :: "vertex_store \<Rightarrow> nat \<Rightarrow> nat \<Rightarrow> vertex_store" where
  "vtx_edge_add h v to =
     (let h1 = h(v := (h v)\<lparr>dependencies := dependencies (h v) @ [Edge v to]\<rparr>)
      in h1(to := (h1 to)\<lparr>dependents := dependents (h1 to) @ [Edge to v]\<rparr>))"

definition vtx_online :: "vertex_store \<Rightarrow> s16note_t list \<Rightarrow> nat \<Rightarrow> int \<Rightarrow> s16note_t list" where
  "vtx_online h notes v r = notes @ [s16note_new N_STATE_CHANGE SC_ONLINE (path (h v)) r]"

definition vtx_offline :: "vertex_store \<Rightarrow> s16note_t list \<Rightarrow> nat \<Rightarrow> int \<Rightarrow> s16note_t list" where
  "vtx_offline h notes v r = notes @ [s16note_new N_STATE_CHANGE SC_OFFLINE (path (h v)) r]"

definition vtx_disable :: "vertex_store \<Rightarrow> s16note_t list \<Rightarrow> nat \<Rightarrow> int \<Rightarrow> s16note_t list" where
  "vtx_disable h notes v r = notes @ [s16note_new N_STATE_CHANGE SC_DISABLED (path (h v)) r]"

definition vtx_is_running :: "vertex_store \<Rightarrow> nat \<Rightarrow> bool" where
  "vtx_is_running h v = (state (h v) = kS16StateOnline \<or> state (h v) = kS16StateDegraded)"

subsection \<open>Satisfiability (lines 325-546)\<close>

text \<open>
  \<^verbatim>\<open>depgroup_is_satisfied\<close>, \<^verbatim>\<open>vtx_satisfies\<close> and the two recursive instance rules
  call one another along dependency edges, and nothing in the code bounds that
  recursion. Every cycle of calls passes through \<^verbatim>\<open>depgroup_is_satisfied\<close>, so the
  other functions take it as their first argument \<open>dgs\<close> (the call
  \<^verbatim>\<open>depgroup_is_satisfied (x, recurse)\<close> is \<open>dgs x\<close>), and
  \<open>depgroup_is_satisfied\<close> itself is defined by recursion on a budget of nested calls.
\<close>

text \<open>The update \<^verbatim>\<open>if (esat != SATISFIED) sat = (sat == UNSATISFIABLE) ? UNSATISFIABLE : esat;\<close>
  that the RequireAll, OptionalAll and ExcludeAll loops share.\<close>

definition sat_update :: "satisfied_t \<Rightarrow> satisfied_t \<Rightarrow> satisfied_t" where
  "sat_update sat esat =
     (if esat \<noteq> SATISFIED then (if sat = UNSATISFIABLE then UNSATISFIABLE else esat) else sat)"

text \<open>The RequireAny branch declares its accumulator \<^verbatim>\<open>bool sat\<close> (line 459): a
  \<^verbatim>\<open>satisfied_t\<close> stored in it is converted to a C99 \<^verbatim>\<open>bool\<close> (non-zero becomes
  1), and \<^verbatim>\<open>return sat\<close> converts the 0 or 1 back to a \<^verbatim>\<open>satisfied_t\<close>.\<close>

definition satisfied_to_bool :: "satisfied_t \<Rightarrow> bool" where
  "satisfied_to_bool x = (x \<noteq> SATISFIED)"

definition bool_to_satisfied :: "bool \<Rightarrow> satisfied_t" where
  "bool_to_satisfied b = (if b then UNSATISFIED else SATISFIED)"

definition vtx_inst_satisfies ::
  "(nat \<Rightarrow> error + satisfied_t) \<Rightarrow> vertex_store \<Rightarrow> nat \<Rightarrow> bool \<Rightarrow> error + satisfied_t" where
  "vtx_inst_satisfies dgs h v recurse =
     (if vtype (h v) \<noteq> V_INST then Inl AssertFailed
      else if \<not> is_setup (h v) \<or> \<not> is_enabled (h v) then Inr UNSATISFIABLE
      else case state (h v) of
          kS16StateUninitialised \<Rightarrow> Inr UNSATISFIED
        | kS16StateDisabled \<Rightarrow> Inr UNSATISFIABLE
        | kS16StateOffline \<Rightarrow>
            (if \<not> recurse then Inr UNSATISFIED
             else case dgs v of
                 Inl e \<Rightarrow> Inl e
               | Inr r \<Rightarrow> Inr (if r = UNSATISFIABLE then UNSATISFIABLE else UNSATISFIED))
        | kS16StateMaintenance \<Rightarrow> Inr UNSATISFIABLE
        | kS16StateOnline \<Rightarrow> Inr SATISFIED
        | kS16StateDegraded \<Rightarrow> Inr SATISFIED)"

definition vtx_inst_satisfies_optional ::
  "(nat \<Rightarrow> error + satisfied_t) \<Rightarrow> vertex_store \<Rightarrow> nat \<Rightarrow> bool \<Rightarrow> error + satisfied_t" where
  "vtx_inst_satisfies_optional dgs h v recurse =
     (if vtype (h v) \<noteq> V_INST then Inl AssertFailed
      else if \<not> is_setup (h v) then Inr SATISFIED
      else case state (h v) of
          kS16StateUninitialised \<Rightarrow> Inr UNSATISFIED
        | kS16StateOffline \<Rightarrow>
            (if \<not> recurse then Inr UNSATISFIED
             else case dgs v of
                 Inl e \<Rightarrow> Inl e
               | Inr r \<Rightarrow> Inr (if r = UNSATISFIABLE then SATISFIED else UNSATISFIED))
        | kS16StateDisabled \<Rightarrow> Inr SATISFIED
        | kS16StateMaintenance \<Rightarrow> Inr SATISFIED
        | kS16StateOnline \<Rightarrow> Inr SATISFIED
        | kS16StateDegraded \<Rightarrow> Inr SATISFIED)"

definition vtx_inst_satisfies_exclusion :: "vertex_store \<Rightarrow> nat \<Rightarrow> error + satisfied_t" where
  "vtx_inst_satisfies_exclusion h v =
     (if vtype (h v) \<noteq> V_INST then Inl AssertFailed
      else if \<not> is_setup (h v) then Inr SATISFIED
      else case state (h v) of
          kS16StateUninitialised \<Rightarrow> Inr UNSATISFIED
        | kS16StateOffline \<Rightarrow> Inr UNSATISFIED
        | kS16StateMaintenance \<Rightarrow> Inr SATISFIED
        | kS16StateDisabled \<Rightarrow> Inr SATISFIED
        | kS16StateOnline \<Rightarrow> Inr (if is_enabled (h v) then UNSATISFIABLE else UNSATISFIED)
        | kS16StateDegraded \<Rightarrow> Inr (if is_enabled (h v) then UNSATISFIABLE else UNSATISFIED))"

definition vtx_satisfies ::
  "(nat \<Rightarrow> error + satisfied_t) \<Rightarrow> vertex_store \<Rightarrow> nat \<Rightarrow> bool \<Rightarrow> error + satisfied_t" where
  "vtx_satisfies dgs h v recurse =
     (if vtype (h v) = V_INST then vtx_inst_satisfies dgs h v recurse else dgs v)"

text \<open>The loop of the RequireAll branch (lines 447-452), from the edge \<open>it\<close> on.\<close>

primrec require_all_loop ::
  "(nat \<Rightarrow> error + satisfied_t) \<Rightarrow> vertex_store \<Rightarrow> edge_t list \<Rightarrow> bool \<Rightarrow> satisfied_t
     \<Rightarrow> error + satisfied_t" where
  "require_all_loop dgs h [] recurse sat = Inr sat"
| "require_all_loop dgs h (it # rest) recurse sat =
     (case vtx_satisfies dgs h (edge_to it) recurse of
        Inl e \<Rightarrow> Inl e
      | Inr esat \<Rightarrow> require_all_loop dgs h rest recurse (sat_update sat esat))"

text \<open>The loop of the RequireAny branch (lines 464-473), with its \<^verbatim>\<open>bool\<close>
  accumulator.\<close>

primrec require_any_loop ::
  "(nat \<Rightarrow> error + satisfied_t) \<Rightarrow> vertex_store \<Rightarrow> edge_t list \<Rightarrow> bool \<Rightarrow> bool
     \<Rightarrow> error + satisfied_t" where
  "require_any_loop dgs h [] recurse sat = Inr (bool_to_satisfied sat)"
| "require_any_loop dgs h (it # rest) recurse sat =
     (case vtx_satisfies dgs h (edge_to it) recurse of
        Inl e \<Rightarrow> Inl e
      | Inr esat \<Rightarrow>
          (if esat = SATISFIED then Inr SATISFIED
           else require_any_loop dgs h rest recurse
                  (if esat = UNSATISFIED then satisfied_to_bool esat else sat)))"

text \<open>The inner loop of the OptionalAll branch over a Service's dependencies
  (lines 495-501): the rule is applied to the target \<open>ddv\<close> of each edge.\<close>

primrec optional_svc_loop ::
  "(nat \<Rightarrow> error + satisfied_t) \<Rightarrow> vertex_store \<Rightarrow> edge_t list \<Rightarrow> bool \<Rightarrow> satisfied_t
     \<Rightarrow> error + satisfied_t" where
  "optional_svc_loop dgs h [] recurse sat = Inr sat"
| "optional_svc_loop dgs h (iit # rest) recurse sat =
     (let ddv = edge_to iit in
      case vtx_inst_satisfies_optional dgs h ddv recurse of
        Inl e \<Rightarrow> Inl e
      | Inr esat \<Rightarrow> optional_svc_loop dgs h rest recurse (sat_update sat esat))"

primrec optional_all_loop ::
  "(nat \<Rightarrow> error + satisfied_t) \<Rightarrow> vertex_store \<Rightarrow> edge_t list \<Rightarrow> bool \<Rightarrow> satisfied_t
     \<Rightarrow> error + satisfied_t" where
  "optional_all_loop dgs h [] recurse sat = Inr sat"
| "optional_all_loop dgs h (it # rest) recurse sat =
     (let dv = edge_to it in
      if vtype (h dv) = V_DEPGROUP then Inl AssertFailed
      else if vtype (h dv) = V_INST then
        (case vtx_inst_satisfies_optional dgs h dv recurse of
           Inl e \<Rightarrow> Inl e
         | Inr esat \<Rightarrow> optional_all_loop dgs h rest recurse (sat_update sat esat))
      else
        (case optional_svc_loop dgs h (dependencies (h dv)) recurse sat of
           Inl e \<Rightarrow> Inl e
         | Inr sat' \<Rightarrow> optional_all_loop dgs h rest recurse sat'))"

text \<open>The inner loop of the ExcludeAll branch over a Service's dependencies
  (lines 532-537): the loop variable \<open>iit\<close> is not used, the rule is applied to the
  Service \<open>dv\<close> itself once per edge.\<close>

primrec exclude_svc_loop ::
  "vertex_store \<Rightarrow> nat \<Rightarrow> edge_t list \<Rightarrow> satisfied_t \<Rightarrow> error + satisfied_t" where
  "exclude_svc_loop h dv [] sat = Inr sat"
| "exclude_svc_loop h dv (iit # rest) sat =
     (case vtx_inst_satisfies_exclusion h dv of
        Inl e \<Rightarrow> Inl e
      | Inr esat \<Rightarrow> exclude_svc_loop h dv rest (sat_update sat esat))"

primrec exclude_all_loop ::
  "vertex_store \<Rightarrow> edge_t list \<Rightarrow> satisfied_t \<Rightarrow> error + satisfied_t" where
  "exclude_all_loop h [] sat = Inr sat"
| "exclude_all_loop h (it # rest) sat =
     (let dv = edge_to it in
      if vtype (h dv) = V_DEPGROUP then Inl AssertFailed
      else if vtype (h dv) = V_INST then
        (case vtx_inst_satisfies_exclusion h dv of
           Inl e \<Rightarrow> Inl e
         | Inr esat \<Rightarrow> exclude_all_loop h rest (sat_update sat esat))
      else
        (case exclude_svc_loop h dv (dependencies (h dv)) sat of
           Inl e \<Rightarrow> Inl e
         | Inr sat' \<Rightarrow> exclude_all_loop h rest sat'))"

text \<open>The body of \<^verbatim>\<open>depgroup_is_satisfied\<close> (lines 439-546), the recursive calls
  going through \<open>dgs\<close>.\<close>

definition depgroup_body ::
  "(nat \<Rightarrow> error + satisfied_t) \<Rightarrow> vertex_store \<Rightarrow> nat \<Rightarrow> bool \<Rightarrow> error + satisfied_t" where
  "depgroup_body dgs h v recurse =
     (case dg_type (h v) of
        kS16RequireAll \<Rightarrow> require_all_loop dgs h (dependencies (h v)) recurse SATISFIED
      | kS16RequireAny \<Rightarrow>
          (if dependencies (h v) = [] then Inr SATISFIED
           else require_any_loop dgs h (dependencies (h v)) recurse
                  (satisfied_to_bool UNSATISFIABLE))
      | kS16OptionalAll \<Rightarrow> optional_all_loop dgs h (dependencies (h v)) recurse SATISFIED
      | kS16ExcludeAll \<Rightarrow> exclude_all_loop h (dependencies (h v)) SATISFIED)"

primrec depgroup_is_satisfied ::
  "nat \<Rightarrow> vertex_store \<Rightarrow> bool \<Rightarrow> nat \<Rightarrow> error + satisfied_t" where
  "depgroup_is_satisfied 0 h recurse v = Inl OutOfFuel"
| "depgroup_is_satisfied (Suc n) h recurse v =
     depgroup_body (depgroup_is_satisfied n h recurse) h v recurse"

text \<open>\<^verbatim>\<open>vtx_inst_can_come_up\<close> (lines 337-341); \<^verbatim>\<open>&&\<close> evaluates the group only
  when the three flags allow.\<close>

definition vtx_inst_can_come_up :: "nat \<Rightarrow> vertex_store \<Rightarrow> nat \<Rightarrow> error + bool" where
  "vtx_inst_can_come_up n h v =
     (if is_enabled (h v) \<and> \<not> to_offline (h v) \<and> \<not> to_disable (h v) then
        (case depgroup_is_satisfied n h True v of
           Inl e \<Rightarrow> Inl e
         | Inr r \<Rightarrow> Inr (r = SATISFIED))
      else Inr False)"

subsection \<open>Reachability and cycle check (lines 121-184)\<close>

text \<open>
  \<^verbatim>\<open>vtx_is_reachable_internal\<close> (lines 121-151) visits \<open>v\<close> in the search for \<open>to\<close>;
  it updates the lists \<open>seen\<close> and \<open>pathTo\<close> of its caller and returns "continue?".
  The result is the returned flag with the two lists as the call leaves them.
  \<open>is_reachable_loop\<close> is the loop over the dependencies from the edge \<open>it\<close> on; its
  flag is the value of \<open>cont\<close> when the loop ends (true when no call was made, false
  after the \<^verbatim>\<open>break\<close>). The first argument bounds the depth of the recursion.
\<close>

fun vtx_is_reachable_internal ::
  "nat \<Rightarrow> vertex_store \<Rightarrow> nat \<Rightarrow> nat \<Rightarrow> nat list \<Rightarrow> nat list
     \<Rightarrow> error + (bool \<times> nat list \<times> nat list)"
and is_reachable_loop ::
  "nat \<Rightarrow> vertex_store \<Rightarrow> edge_t list \<Rightarrow> nat \<Rightarrow> nat list \<Rightarrow> nat list
     \<Rightarrow> error + (bool \<times> nat list \<times> nat list)"
where
  "vtx_is_reachable_internal 0 h v to seen pathTo = Inl OutOfFuel"
| "vtx_is_reachable_internal (Suc n) h v to seen pathTo =
     (if v \<in> set seen then Inr (False, seen, pathTo)
      else let seen1 = seen @ [v] in
        if dg_type (h v) = kS16ExcludeAll then Inr (False, seen1, pathTo)
        else if v = to then Inr (False, seen1, v # pathTo)
        else case is_reachable_loop n h (dependencies (h v)) to seen1 pathTo of
            Inl e \<Rightarrow> Inl e
          | Inr (cont, seen2, pathTo2) \<Rightarrow>
              Inr (cont, seen2, if pathTo2 \<noteq> [] then v # pathTo2 else pathTo2))"
| "is_reachable_loop n h [] to seen pathTo = Inr (True, seen, pathTo)"
| "is_reachable_loop n h (it # rest) to seen pathTo =
     (case vtx_is_reachable_internal n h (edge_to it) to seen pathTo of
        Inl e \<Rightarrow> Inl e
      | Inr (cont, seen1, pathTo1) \<Rightarrow>
          if \<not> cont then Inr (False, seen1, pathTo1)
          else is_reachable_loop n h rest to seen1 pathTo1)"

text \<open>\<^verbatim>\<open>vtx_is_reachable\<close> (lines 154-165): the answer and \<open>pathTo\<close> as the search
  leaves it. The caller's \<open>pathTo\<close> is passed in as it is; the function does not clear
  it.\<close>

definition vtx_is_reachable ::
  "nat \<Rightarrow> vertex_store \<Rightarrow> nat \<Rightarrow> nat \<Rightarrow> nat list \<Rightarrow> error + (bool \<times> nat list)" where
  "vtx_is_reachable n h from to pathTo =
     (case vtx_is_reachable_internal n h from to [] pathTo of
        Inl e \<Rightarrow> Inl e
      | Inr (cont, seen, pathTo1) \<Rightarrow> Inr (pathTo1 \<noteq> [], pathTo1))"

text \<open>\<^verbatim>\<open>vtx_dependency_add\<close> (lines 172-184): the returned int, the store and
  \<open>pathTo\<close> after the call.\<close>

definition vtx_dependency_add ::
  "nat \<Rightarrow> vertex_store \<Rightarrow> nat \<Rightarrow> nat \<Rightarrow> nat list \<Rightarrow> error + (int \<times> vertex_store \<times> nat list)" where
  "vtx_dependency_add n h v to pathTo =
     (case vtx_is_reachable n h to v pathTo of
        Inl e \<Rightarrow> Inl e
      | Inr (reachable, pathTo1) \<Rightarrow>
          if reachable then Inr (1, h, pathTo1)
          else Inr (0, vtx_edge_add h v to, pathTo1))"

subsection \<open>Propagation (lines 628-883)\<close>

text \<open>
  The notification functions recurse along the dependents through
  \<^verbatim>\<open>vtx_dependents_do (v, f, extra)\<close>, which calls \<open>f\<close> on the target of every edge
  in turn; \<open>vtx_can_go_down\<close> has its own loop; \<^verbatim>\<open>vtx_offline_dependency\<close> recurses
  along the dependencies through \<^verbatim>\<open>vtx_dependencies_do\<close>. In each pair below the
  second function is that loop, from the edge \<open>it\<close> on, and the first argument bounds
  the depth of the recursion. The functions read the graph and append to the note
  queue \<open>notes\<close>; they return the queue. A reason travels as the \<^verbatim>\<open>void *\<close> argument
  \<open>extra\<close>; it is an \<open>int\<close> here, and a restart-on value stands for its number.

  \<^verbatim>\<open>vtx_notify_start\<close> (lines 628-664): a group or service passes its own
  \<^verbatim>\<open>restart_on\<close> on as the reason; the note for an Instance carries the reason 0.
\<close>

fun vtx_notify_start ::
  "nat \<Rightarrow> vertex_store \<Rightarrow> nat \<Rightarrow> int \<Rightarrow> s16note_t list \<Rightarrow> error + s16note_t list"
and notify_start_loop ::
  "nat \<Rightarrow> vertex_store \<Rightarrow> edge_t list \<Rightarrow> int \<Rightarrow> s16note_t list \<Rightarrow> error + s16note_t list"
where
  "vtx_notify_start 0 h v r notes = Inl OutOfFuel"
| "vtx_notify_start (Suc n) h v r notes =
     (case vtype (h v) of
        V_INST \<Rightarrow>
          (case vtx_inst_can_come_up (Suc n) h v of
             Inl e \<Rightarrow> Inl e
           | Inr up \<Rightarrow>
               if up then
                 (if vtx_is_running h v then Inr notes
                  else Inr (notes @ [s16note_new N_STATE_CHANGE SC_ONLINE (path (h v)) 0]))
               else Inr notes)
      | V_DEPGROUP \<Rightarrow>
          notify_start_loop n h (dependents (h v)) (restart_on_val (restart_on (h v))) notes
      | V_SVC \<Rightarrow>
          notify_start_loop n h (dependents (h v)) (restart_on_val (restart_on (h v))) notes)"
| "notify_start_loop n h [] r notes = Inr notes"
| "notify_start_loop n h (it # rest) r notes =
     (case vtx_notify_start n h (edge_to it) r notes of
        Inl e \<Rightarrow> Inl e
      | Inr notes1 \<Rightarrow> notify_start_loop n h rest r notes1)"

text \<open>
  \<^verbatim>\<open>vtx_notify_stop\<close> (lines 666-712). The function converts its \<^verbatim>\<open>void *\<close> argument
  to the restart-on type (\<^verbatim>\<open>S16DependencyGroupRestartOnCondition reason = (intptr_t)vreason\<close>).
  The enumeration has no negative enumerator, so gcc and clang represent it as an
  unsigned 32-bit integer: \<open>reason_of_extra r\<close> is the value of \<open>reason\<close> for the \<open>int\<close>
  \<open>r\<close> that the caller has passed, and \<^verbatim>\<open>v->restart_on < reason\<close> compares two unsigned
  numbers (a negative \<open>r\<close> is a large reason). The note of an Instance converts \<open>reason\<close>
  back to the \<open>int\<close> parameter of \<^verbatim>\<open>s16note_new\<close>, which gives \<open>r\<close> again; the dependents
  are called with the unconverted \<open>vreason\<close>.
\<close>

definition reason_of_extra :: "int \<Rightarrow> int" where
  "reason_of_extra r = r mod 2 ^ 32"

fun vtx_notify_stop ::
  "nat \<Rightarrow> vertex_store \<Rightarrow> nat \<Rightarrow> int \<Rightarrow> s16note_t list \<Rightarrow> error + s16note_t list"
and notify_stop_loop ::
  "nat \<Rightarrow> vertex_store \<Rightarrow> edge_t list \<Rightarrow> int \<Rightarrow> s16note_t list \<Rightarrow> error + s16note_t list"
where
  "vtx_notify_stop 0 h v r notes = Inl OutOfFuel"
| "vtx_notify_stop (Suc n) h v r notes =
     (case vtype (h v) of
        V_INST \<Rightarrow>
          (if \<not> vtx_is_running h v then Inr notes
           else Inr (notes @ [s16note_new N_STATE_CHANGE SC_OFFLINE (path (h v)) r]))
      | V_DEPGROUP \<Rightarrow>
          (if dg_type (h v) = kS16ExcludeAll then Inr notes
           else if restart_on_val (restart_on (h v)) < reason_of_extra r then Inr notes
           else notify_stop_loop n h (dependents (h v)) r notes)
      | V_SVC \<Rightarrow> notify_stop_loop n h (dependents (h v)) r notes)"
| "notify_stop_loop n h [] r notes = Inr notes"
| "notify_stop_loop n h (it # rest) r notes =
     (case vtx_notify_stop n h (edge_to it) r notes of
        Inl e \<Rightarrow> Inl e
      | Inr notes1 \<Rightarrow> notify_stop_loop n h rest r notes1)"

text \<open>\<^verbatim>\<open>vtx_notify_misc\<close> (lines 714-722).\<close>

fun vtx_notify_misc ::
  "nat \<Rightarrow> vertex_store \<Rightarrow> nat \<Rightarrow> int \<Rightarrow> s16note_t list \<Rightarrow> error + s16note_t list"
and notify_misc_loop ::
  "nat \<Rightarrow> vertex_store \<Rightarrow> edge_t list \<Rightarrow> int \<Rightarrow> s16note_t list \<Rightarrow> error + s16note_t list"
where
  "vtx_notify_misc 0 h v r notes = Inl OutOfFuel"
| "vtx_notify_misc (Suc n) h v r notes =
     (case (if vtype (h v) = V_INST then
              (case vtx_inst_can_come_up (Suc n) h v of
                 Inl e \<Rightarrow> Inl e
               | Inr up \<Rightarrow>
                   Inr (if up \<and> \<not> vtx_is_running h v then vtx_online h notes v r else notes))
            else Inr notes) of
        Inl e \<Rightarrow> Inl e
      | Inr notes1 \<Rightarrow> notify_misc_loop n h (dependents (h v)) r notes1)"
| "notify_misc_loop n h [] r notes = Inr notes"
| "notify_misc_loop n h (it # rest) r notes =
     (case vtx_notify_misc n h (edge_to it) r notes of
        Inl e \<Rightarrow> Inl e
      | Inr notes1 \<Rightarrow> notify_misc_loop n h rest r notes1)"

text \<open>\<^verbatim>\<open>vtx_can_go_down\<close> (lines 748-765). The loop \<^verbatim>\<open>continue\<close>s on a dependent that
  is an Instance without \<open>to_offline\<close> and returns false from the function as soon
  as another dependent cannot go down; \<open>can_go_down_loop\<close> tells whether the loop ran
  to its end.\<close>

fun vtx_can_go_down :: "nat \<Rightarrow> vertex_store \<Rightarrow> nat \<Rightarrow> bool \<Rightarrow> error + bool"
and can_go_down_loop :: "nat \<Rightarrow> vertex_store \<Rightarrow> edge_t list \<Rightarrow> error + bool"
where
  "vtx_can_go_down 0 h v root = Inl OutOfFuel"
| "vtx_can_go_down (Suc n) h v root =
     (case can_go_down_loop n h (dependents (h v)) of
        Inl e \<Rightarrow> Inl e
      | Inr completed \<Rightarrow>
          if \<not> completed then Inr False
          else if vtype (h v) = V_INST \<and>
              (state (h v) = kS16StateOnline \<or> state (h v) = kS16StateDegraded) \<and> \<not> root
          then Inr False
          else Inr True)"
| "can_go_down_loop n h [] = Inr True"
| "can_go_down_loop n h (it # rest) =
     (if vtype (h (edge_to it)) = V_INST \<and> \<not> to_offline (h (edge_to it))
      then can_go_down_loop n h rest
      else case vtx_can_go_down n h (edge_to it) False of
          Inl e \<Rightarrow> Inl e
        | Inr down \<Rightarrow> if \<not> down then Inr False else can_go_down_loop n h rest)"

text \<open>\<^verbatim>\<open>vtx_offline_dependency\<close> (lines 781-795).\<close>

fun vtx_offline_dependency ::
  "nat \<Rightarrow> vertex_store \<Rightarrow> nat \<Rightarrow> int \<Rightarrow> s16note_t list \<Rightarrow> error + s16note_t list"
and offline_dependency_loop ::
  "nat \<Rightarrow> vertex_store \<Rightarrow> edge_t list \<Rightarrow> int \<Rightarrow> s16note_t list \<Rightarrow> error + s16note_t list"
where
  "vtx_offline_dependency 0 h v r notes = Inl OutOfFuel"
| "vtx_offline_dependency (Suc n) h v r notes =
     (if vtype (h v) = V_INST \<and> \<not> to_offline (h v) then Inr notes
      else if vtype (h v) = V_INST then
        (case vtx_can_go_down (Suc n) h v True of
           Inl e \<Rightarrow> Inl e
         | Inr down \<Rightarrow> Inr (if down then vtx_offline h notes v r else notes))
      else offline_dependency_loop n h (dependencies (h v)) r notes)"
| "offline_dependency_loop n h [] r notes = Inr notes"
| "offline_dependency_loop n h (it # rest) r notes =
     (case vtx_offline_dependency n h (edge_to it) r notes of
        Inl e \<Rightarrow> Inl e
      | Inr notes1 \<Rightarrow> offline_dependency_loop n h rest r notes1)"

text \<open>\<^verbatim>\<open>vtx_process_state_change\<close> (lines 840-883): the store and the note queue
  after the call. The \<^verbatim>\<open>default\<close> branch only logs. The handlers of administrative
  requests (lines 724-746, 767-777, 797-838) are not needed below and are left out.\<close>

definition vtx_process_state_change ::
  "nat \<Rightarrow> vertex_store \<Rightarrow> s16note_t list \<Rightarrow> nat \<Rightarrow> s16note_sc_type_t \<Rightarrow> int
     \<Rightarrow> error + (vertex_store \<times> s16note_t list)" where
  "vtx_process_state_change n h notes v type r =
     (let was_to_offline = to_offline (h v) in
      case type of
        SC_ONLINE \<Rightarrow>
          (let h1 = h(v := (h v)\<lparr>state := kS16StateOnline\<rparr>) in
           case notify_start_loop n h1 (dependents (h1 v)) r notes of
             Inl e \<Rightarrow> Inl e
           | Inr notes1 \<Rightarrow> Inr (h1, notes1))
      | SC_OFFLINE \<Rightarrow>
          (let h1 = h(v := (h v)\<lparr>state := kS16StateOffline, to_offline := False\<rparr>) in
           case (if was_to_offline then
                   (case offline_dependency_loop n h1 (dependencies (h1 v)) r notes of
                      Inl e \<Rightarrow> Inl e
                    | Inr notes1 \<Rightarrow>
                        Inr (if to_disable (h1 v) then vtx_disable h1 notes1 v r else notes1))
                 else
                   (case vtx_inst_can_come_up n h1 v of
                      Inl e \<Rightarrow> Inl e
                    | Inr up \<Rightarrow> Inr (if up then vtx_online h1 notes v r else notes))) of
             Inl e \<Rightarrow> Inl e
           | Inr notes2 \<Rightarrow>
               (case notify_stop_loop n h1 (dependents (h1 v)) r notes2 of
                  Inl e \<Rightarrow> Inl e
                | Inr notes3 \<Rightarrow> Inr (h1, notes3)))
      | SC_DISABLED \<Rightarrow>
          (let h1 = h(v := (h v)\<lparr>to_offline := False, to_disable := False,
                                 state := kS16StateDisabled\<rparr>) in
           case notify_misc_loop n h1 (dependents (h1 v)) r notes of
             Inl e \<Rightarrow> Inl e
           | Inr notes1 \<Rightarrow> Inr (h1, notes1))
      | SC_DEGRADED \<Rightarrow> Inr (h, notes)
      | SC_MAINTENANCE \<Rightarrow> Inr (h, notes))"

subsection \<open>Vertex creation and example graphs\<close>

text \<open>The vertex that \<^verbatim>\<open>vtx_find_or_add\<close> allocates (lines 208-219): \<^verbatim>\<open>calloc\<close> clears
  every flag, the edge lists are new, the state is Uninitialised.\<close>

definition vtx_new ::
  "S16Path \<Rightarrow> vertex_type_t \<Rightarrow> S16DependencyGroupType
     \<Rightarrow> S16DependencyGroupRestartOnCondition \<Rightarrow> vertex_t" where
  "vtx_new p t dgt ron =
     \<lparr>path = p, vtype = t, dg_type = dgt, restart_on = ron, state = kS16StateUninitialised,
      is_setup = False, is_enabled = False, to_offline = False, to_disable = False,
      dependencies = [], dependents = []\<rparr>"

text \<open>Vertices as \<^verbatim>\<open>install_inst\<close>, \<^verbatim>\<open>graph_install_service\<close> and
  \<^verbatim>\<open>setup_depgroup\<close> create them; an instance that \<^verbatim>\<open>vtx_setup\<close> has visited is set
  up and enabled. Addresses that hold no vertex of an example read as \<open>no_vertex\<close>.\<close>

definition no_vertex :: vertex_t where
  "no_vertex = vtx_new \<lparr>svc = [], inst = None\<rparr> V_SVC kS16RequireAll kS16RestartOnAny"

definition inst_vertex :: "string \<Rightarrow> string \<Rightarrow> S16State \<Rightarrow> vertex_t" where
  "inst_vertex s i st =
     (vtx_new \<lparr>svc = s, inst = Some i\<rparr> V_INST kS16RequireAll kS16RestartOnAny)
       \<lparr>state := st, is_setup := True, is_enabled := True\<rparr>"

definition svc_vertex :: "string \<Rightarrow> vertex_t" where
  "svc_vertex s =
     (vtx_new \<lparr>svc = s, inst = None\<rparr> V_SVC kS16RequireAll kS16RestartOnAny)
       \<lparr>is_setup := True, is_enabled := True\<rparr>"

definition depgroup_vertex ::
  "string \<Rightarrow> string \<Rightarrow> S16DependencyGroupType \<Rightarrow> S16DependencyGroupRestartOnCondition
     \<Rightarrow> vertex_t" where
  "depgroup_vertex s i dgt ron =
     (vtx_new \<lparr>svc = s, inst = Some i\<rparr> V_DEPGROUP dgt ron)\<lparr>is_setup := True, is_enabled := True\<rparr>"

text \<open>A RequireAny group of the instance a:i over two instances, one in Maintenance
  and one Disabled.\<close>

definition any_graph :: vertex_store where
  "any_graph =
     (\<lambda>_. no_vertex)
       (0 := (depgroup_vertex ''a'' ''i#depgroups/0'' kS16RequireAny kS16RestartOnAny)
               \<lparr>dependencies := [Edge 0 1, Edge 0 2]\<rparr>,
        1 := (inst_vertex ''b'' ''j'' kS16StateMaintenance)\<lparr>dependents := [Edge 1 0]\<rparr>,
        2 := (inst_vertex ''c'' ''k'' kS16StateDisabled)\<lparr>dependents := [Edge 2 0]\<rparr>)"

text \<open>An ExcludeAll group of a:i whose target is the Service b; the Service has one
  Instance b:j, Online and enabled.\<close>

definition exclude_graph :: vertex_store where
  "exclude_graph =
     (\<lambda>_. no_vertex)
       (0 := (depgroup_vertex ''a'' ''i#depgroups/0'' kS16ExcludeAll kS16RestartOnAny)
               \<lparr>dependencies := [Edge 0 1]\<rparr>,
        1 := (svc_vertex ''b'')\<lparr>dependencies := [Edge 1 2], dependents := [Edge 1 0]\<rparr>,
        2 := (inst_vertex ''b'' ''j'' kS16StateOnline)\<lparr>dependents := [Edge 2 1]\<rparr>)"

text \<open>
  The instance x:i (address 0) has two RequireAll groups: group 0 (address 1) over
  c:k, and group 1 (address 2) over c:k and y:j. The instance y:j (address 4) has one
  group (address 5), still without targets. All edges are symmetric and there is no
  cycle; x:i reaches the group of y:j along 0, 2, 4, 5.
\<close>

definition shared_target_graph :: vertex_store where
  "shared_target_graph =
     (\<lambda>_. no_vertex)
       (0 := (inst_vertex ''x'' ''i'' kS16StateOffline)
               \<lparr>dependencies := [Edge 0 1, Edge 0 2]\<rparr>,
        1 := (depgroup_vertex ''x'' ''i#depgroups/0'' kS16RequireAll kS16RestartOnAny)
               \<lparr>dependencies := [Edge 1 3], dependents := [Edge 1 0]\<rparr>,
        2 := (depgroup_vertex ''x'' ''i#depgroups/1'' kS16RequireAll kS16RestartOnAny)
               \<lparr>dependencies := [Edge 2 3, Edge 2 4], dependents := [Edge 2 0]\<rparr>,
        3 := (inst_vertex ''c'' ''k'' kS16StateOffline)
               \<lparr>dependents := [Edge 3 1, Edge 3 2]\<rparr>,
        4 := (inst_vertex ''y'' ''j'' kS16StateOffline)
               \<lparr>dependencies := [Edge 4 5], dependents := [Edge 4 2]\<rparr>,
        5 := (depgroup_vertex ''y'' ''j#depgroups/0'' kS16RequireAll kS16RestartOnAny)
               \<lparr>dependents := [Edge 5 4]\<rparr>)"

subsection \<open>Acyclic graphs\<close>

text \<open>
  The recursions of the engine follow one of the two edge lists. They return on every
  graph in which that list has no cycle: \<open>ranked sel h rk\<close> says that the rank \<open>rk\<close>
  strictly decreases along every edge of the list \<open>sel\<close>.
\<close>

definition ranked :: "(vertex_t \<Rightarrow> edge_t list) \<Rightarrow> vertex_store \<Rightarrow> (nat \<Rightarrow> nat) \<Rightarrow> bool" where
  "ranked sel h rk \<longleftrightarrow> (\<forall>v. \<forall>e\<in>set (sel (h v)). rk (edge_to e) < rk v)"

text \<open>
  The instance a:i (address 1) requires b:j (address 2) through its group (address 0).
  Both instances are Online and marked \<open>to_offline\<close>, as after a request to disable
  b:j.
\<close>

definition pending_offline_graph :: vertex_store where
  "pending_offline_graph =
     (\<lambda>_. no_vertex)
       (0 := (depgroup_vertex ''a'' ''i#depgroups/0'' kS16RequireAll kS16RestartOnAny)
               \<lparr>dependencies := [Edge 0 2], dependents := [Edge 0 1]\<rparr>,
        1 := (inst_vertex ''a'' ''i'' kS16StateOnline)
               \<lparr>to_offline := True, dependencies := [Edge 1 0]\<rparr>,
        2 := (inst_vertex ''b'' ''j'' kS16StateOnline)
               \<lparr>to_offline := True, dependents := [Edge 2 0]\<rparr>)"

text \<open>Ranks for the three-vertex examples a:i (1) - group (0) - b:j (2): along the
  dependents b:j is highest, along the dependencies a:i is.\<close>

definition up_rank :: "nat \<Rightarrow> nat" where
  "up_rank v = (if v = 2 then 2 else if v = 0 then 1 else 0)"

definition down_rank :: "nat \<Rightarrow> nat" where
  "down_rank v = (if v = 1 then 2 else if v = 0 then 1 else 0)"

text \<open>
  The assertions of the satisfiability rules hold on a graph in which the targets of
  every OptionalAll group are Instances or Services all of whose dependencies are
  Instances, and the targets of every ExcludeAll group are Instances or Services
  without dependencies (the inner ExcludeAll loop asserts on the Service itself).
\<close>

definition assert_free :: "vertex_store \<Rightarrow> bool" where
  "assert_free h \<longleftrightarrow>
     (\<forall>v. (dg_type (h v) = kS16OptionalAll \<longrightarrow>
            (\<forall>e\<in>set (dependencies (h v)).
               vtype (h (edge_to e)) \<noteq> V_DEPGROUP \<and>
               (vtype (h (edge_to e)) = V_SVC \<longrightarrow>
                  (\<forall>f\<in>set (dependencies (h (edge_to e))). vtype (h (edge_to f)) = V_INST))))
        \<and> (dg_type (h v) = kS16ExcludeAll \<longrightarrow>
            (\<forall>e\<in>set (dependencies (h v)).
               vtype (h (edge_to e)) \<noteq> V_DEPGROUP \<and>
               (vtype (h (edge_to e)) = V_SVC \<longrightarrow> dependencies (h (edge_to e)) = []))))"

text \<open>
  Neither edge list has a cycle: \<open>rd\<close> ranks the dependencies, \<open>ru\<close> the dependents,
  and both ranks stay below \<open>N\<close>.
\<close>

definition acyclic_graph :: "vertex_store \<Rightarrow> (nat \<Rightarrow> nat) \<Rightarrow> (nat \<Rightarrow> nat) \<Rightarrow> nat \<Rightarrow> bool" where
  "acyclic_graph h rd ru N \<longleftrightarrow>
     ranked dependencies h rd \<and> ranked dependents h ru \<and> (\<forall>v. rd v < N \<and> ru v < N)"


text \<open>
  The Instances that a walk along the edge list \<open>sel\<close> reaches from \<open>v\<close>: the walk
  passes through DepGroup and Service vertices and stops at the first Instance on each
  path (\<^verbatim>\<open>vtx_notify_start\<close> along the dependents, \<^verbatim>\<open>vtx_offline_dependency\<close> along
  the dependencies).
\<close>

inductive reaches_inst ::
  "(vertex_t \<Rightarrow> edge_t list) \<Rightarrow> vertex_store \<Rightarrow> nat \<Rightarrow> nat \<Rightarrow> bool"
  for sel :: "vertex_t \<Rightarrow> edge_t list" and h :: vertex_store
where
  reaches_here: "vtype (h v) = V_INST \<Longrightarrow> reaches_inst sel h v v"
| reaches_through:
    "vtype (h v) \<noteq> V_INST \<Longrightarrow> e \<in> set (sel (h v)) \<Longrightarrow> reaches_inst sel h (edge_to e) d
       \<Longrightarrow> reaches_inst sel h v d"



text \<open>The instance a:i (address 1, Offline, enabled) requires b:j (address 2, Online)
  through its group (address 0).\<close>

definition waiting_graph :: vertex_store where
  "waiting_graph =
     (\<lambda>_. no_vertex)
       (0 := (depgroup_vertex ''a'' ''i#depgroups/0'' kS16RequireAll kS16RestartOnAny)
               \<lparr>dependencies := [Edge 0 2], dependents := [Edge 0 1]\<rparr>,
        1 := (inst_vertex ''a'' ''i'' kS16StateOffline)\<lparr>dependencies := [Edge 1 0]\<rparr>,
        2 := (inst_vertex ''b'' ''j'' kS16StateOnline)\<lparr>dependents := [Edge 2 0]\<rparr>)"

text \<open>The notes that \<^verbatim>\<open>vtx_offline_dependency\<close> appends, as a set.\<close>

definition walk_notes :: "nat \<Rightarrow> vertex_store \<Rightarrow> int \<Rightarrow> nat \<Rightarrow> s16note_t set" where
  "walk_notes m h r v =
     {s16note_new N_STATE_CHANGE SC_OFFLINE (path (h d)) r | d.
        reaches_inst dependencies h v d \<and> to_offline (h d)
        \<and> vtx_can_go_down m h d True = Inr True}"

text \<open>
  The graph \<open>exclude_graph\<close> with the owner of its group: the instance a:i (address 3,
  Online) depends on the ExcludeAll group (address 0) over the Service b. Along the
  dependencies the chain is 3, 0, 1, 2.
\<close>

definition excluding_graph :: vertex_store where
  "excluding_graph =
     exclude_graph
       (0 := (exclude_graph 0)\<lparr>dependents := [Edge 0 3]\<rparr>,
        3 := (inst_vertex ''a'' ''i'' kS16StateOnline)\<lparr>dependencies := [Edge 3 0]\<rparr>)"

definition chain_up_rank :: "nat \<Rightarrow> nat" where
  "chain_up_rank v = (if v = 2 then 3 else if v = 1 then 2 else if v = 0 then 1 else 0)"

definition chain_down_rank :: "nat \<Rightarrow> nat" where
  "chain_down_rank v = (if v = 3 then 3 else if v = 0 then 2 else if v = 1 then 1 else 0)"

subsection \<open>The walks of the handlers\<close>

text \<open>
  None of the recursions of the engine keeps a list of the vertices it has visited
  (only the cycle check of \<^verbatim>\<open>vtx_dependency_add\<close> does): each returns when the edges it
  follows lead into no cycle. The edges that leave a vertex \<open>x\<close> in each recursion:
  \<^item> \<open>stop_edges r\<close>: \<^verbatim>\<open>vtx_notify_stop\<close> with the reason \<open>r\<close> goes on to the dependents
    of a Service, and of a DepGroup that is not ExcludeAll and whose \<open>restart_on\<close> is
    not below the reason; it stops at an Instance;
  \<^item> \<open>down_edges h\<close>: \<^verbatim>\<open>vtx_can_go_down\<close> asks every dependent but the Instances that
    are not marked \<open>to_offline\<close>;
  \<^item> \<open>walk_edges\<close>: \<^verbatim>\<open>vtx_offline_dependency\<close> goes on to the dependencies of a
    DepGroup or Service; it stops at an Instance;
  \<^item> \<open>sat_edges\<close>: \<^verbatim>\<open>depgroup_is_satisfied\<close> evaluates the dependencies of a vertex,
    and the ExcludeAll rule does not recurse.
\<close>

definition stop_edges :: "int \<Rightarrow> vertex_t \<Rightarrow> edge_t list" where
  "stop_edges r x =
     (case vtype x of
        V_INST \<Rightarrow> []
      | V_DEPGROUP \<Rightarrow>
          (if dg_type x = kS16ExcludeAll \<or> restart_on_val (restart_on x) < reason_of_extra r
           then [] else dependents x)
      | V_SVC \<Rightarrow> dependents x)"

definition down_edges :: "vertex_store \<Rightarrow> vertex_t \<Rightarrow> edge_t list" where
  "down_edges h x =
     filter (\<lambda>e. \<not> (vtype (h (edge_to e)) = V_INST \<and> \<not> to_offline (h (edge_to e))))
       (dependents x)"

definition walk_edges :: "vertex_t \<Rightarrow> edge_t list" where
  "walk_edges x = (if vtype x = V_INST then [] else dependencies x)"

definition sat_edges :: "vertex_t \<Rightarrow> edge_t list" where
  "sat_edges x =
     (if vtype x = V_DEPGROUP \<and> dg_type x = kS16ExcludeAll then [] else dependencies x)"

text \<open>
  The four walks of the SC_OFFLINE handler end on \<open>h\<close>: each kind of edge has a rank
  that decreases along it, and all ranks stay below \<open>N\<close>. A graph without a cycle of
  dependencies or dependents is of this kind, and so is a graph whose only cycles
  pass through ExcludeAll groups and Instances (two instances that exclude each
  other), unless all the Instances of such a cycle are marked \<open>to_offline\<close>.
\<close>

definition walks_end ::
  "vertex_store \<Rightarrow> int \<Rightarrow> (nat \<Rightarrow> nat) \<Rightarrow> (nat \<Rightarrow> nat) \<Rightarrow> (nat \<Rightarrow> nat) \<Rightarrow> (nat \<Rightarrow> nat) \<Rightarrow> nat
     \<Rightarrow> bool" where
  "walks_end h r rs ru rw rd N \<longleftrightarrow>
     ranked (stop_edges r) h rs \<and> ranked (down_edges h) h ru
     \<and> ranked walk_edges h rw \<and> ranked sat_edges h rd
     \<and> (\<forall>x. rs x < N \<and> ru x < N \<and> rw x < N \<and> rd x < N)"

text \<open>
  Two instances that exclude each other, and a third that requires the first: a:i
  (address 0, Online) has an ExcludeAll group (1) over b:j (2, Offline), b:j has an
  ExcludeAll group (3) over a:i, and c:k (4, Online) has a RequireAll group (5) over
  a:i. The cycle check admits the cycle 0, 1, 2, 3, 0 of dependencies, because it does
  not search through an ExcludeAll group.
\<close>

definition mutual_exclusion_graph :: vertex_store where
  "mutual_exclusion_graph =
     (\<lambda>_. no_vertex)
       (0 := (inst_vertex ''a'' ''i'' kS16StateOnline)
               \<lparr>dependencies := [Edge 0 1], dependents := [Edge 0 3, Edge 0 5]\<rparr>,
        1 := (depgroup_vertex ''a'' ''i#depgroups/0'' kS16ExcludeAll kS16RestartOnAny)
               \<lparr>dependencies := [Edge 1 2], dependents := [Edge 1 0]\<rparr>,
        2 := (inst_vertex ''b'' ''j'' kS16StateOffline)
               \<lparr>dependencies := [Edge 2 3], dependents := [Edge 2 1]\<rparr>,
        3 := (depgroup_vertex ''b'' ''j#depgroups/0'' kS16ExcludeAll kS16RestartOnAny)
               \<lparr>dependencies := [Edge 3 0], dependents := [Edge 3 2]\<rparr>,
        4 := (inst_vertex ''c'' ''k'' kS16StateOnline)\<lparr>dependencies := [Edge 4 5]\<rparr>,
        5 := (depgroup_vertex ''c'' ''k#depgroups/0'' kS16RequireAll kS16RestartOnAny)
               \<lparr>dependencies := [Edge 5 0], dependents := [Edge 5 4]\<rparr>)"

text \<open>The ranks of the four walks on \<open>mutual_exclusion_graph\<close>.\<close>

definition mutual_stop_rank :: "nat \<Rightarrow> nat" where
  "mutual_stop_rank x = (if x = 5 then 1 else 0)"

definition mutual_down_rank :: "nat \<Rightarrow> nat" where
  "mutual_down_rank x = (if x = 0 \<or> x = 2 then 1 else 0)"

definition mutual_walk_rank :: "nat \<Rightarrow> nat" where
  "mutual_walk_rank x = (if x = 1 \<or> x = 3 \<or> x = 5 then 1 else 0)"

definition mutual_sat_rank :: "nat \<Rightarrow> nat" where
  "mutual_sat_rank x = (if x = 4 then 3 else if x = 5 then 2 else if x = 0 \<or> x = 2 then 1 else 0)"

text \<open>
  The same graph when all three instances are marked \<open>to_offline\<close> and c:k is to be
  disabled: now \<^verbatim>\<open>vtx_can_go_down\<close> skips none of the dependents on the cycle
  0, 3, 2, 1, 0.
\<close>

definition marked_exclusion_graph :: vertex_store where
  "marked_exclusion_graph =
     mutual_exclusion_graph
       (0 := (mutual_exclusion_graph 0)\<lparr>to_offline := True\<rparr>,
        2 := (mutual_exclusion_graph 2)\<lparr>to_offline := True\<rparr>,
        4 := (mutual_exclusion_graph 4)\<lparr>to_offline := True, to_disable := True\<rparr>)"

text \<open>The graph that \<^verbatim>\<open>vtx_dependency_add\<close> makes of \<open>shared_target_graph\<close> when the
  group of y:j is given the target x:i: the dependencies 0, 2, 4, 5, 0 form a cycle
  through RequireAll groups and Offline instances.\<close>

definition cycle_graph :: vertex_store where
  "cycle_graph = vtx_edge_add shared_target_graph 5 0"

section \<open>Unit state machine (usr/src/agent/restartd/unit.c)\<close>

subsection \<open>Data model\<close>

text \<open>
  The header \<^verbatim>\<open>unit.h\<close> is not among the sources; the types are read off the uses in
  \<^verbatim>\<open>unit.c\<close>. The field names of the unit carry the prefix \<open>u_\<close>, those of the
  restarter around it the prefix \<open>r_\<close>. \<^verbatim>\<open>unit_add\<close> writes the initial state as
  \<^verbatim>\<open>UkS16StateUninitialisedIALISED\<close>; it is \<open>UkS16StateUninitialised\<close> here.
\<close>

datatype UnitState =
  UkS16StateUninitialised | UkS16StateOffline | US_PRESTART | US_START | US_POSTSTART
  | UkS16StateOnline | US_STOP | US_STOPTERM | US_STOPKILL | US_POSTSTOP
  | UkS16StateMaintenance | UkS16StateNone

datatype UnitMethodType = UM_PRESTART | UM_START | UM_POSTSTART | UM_STOP | UM_POSTSTOP

datatype UnitType = U_SIMPLE | U_ONESHOT | U_FORKS | U_GROUP | U_NOTIFY

datatype signal_t = SIGTERM | SIGKILL

text \<open>The two functions that \<^verbatim>\<open>unit.c\<close> registers as timer callbacks.\<close>

datatype timer_callback = CB_unit_timer_event | CB_unit_restart_begin_cb

text \<open>How a run of the unit model can end without a result: the budget of nested
  calls of \<^verbatim>\<open>unit_purge_and_target\<close> is used up, or \<^verbatim>\<open>fail_cnt\<close> is indexed with
  the -1 that \<^verbatim>\<open>state_to_S16ServiceMethodype\<close> returns for a state without a
  method.\<close>

datatype unit_error = UnitOutOfFuel | FailCntOutOfBounds

record Unit =
  u_path :: S16Path
  u_type :: UnitType
  u_methods :: "UnitMethodType \<Rightarrow> string option"
  u_state :: UnitState
  u_target :: UnitState
  u_main_pid :: nat
  u_secondary_pid :: nat
  u_pids :: "nat list"
  u_timer_id :: nat
  u_meth_restart_timer_id :: nat
  u_fail_cnt :: "UnitMethodType \<Rightarrow> int"

record timer_t =
  t_id :: nat
  t_msec :: nat
  t_callback :: timer_callback

text \<open>
  Modelled from the spec: the timer set, the process tracker, \<^verbatim>\<open>fork\<close>, \<^verbatim>\<open>kill\<close>
  and the manager are external collaborators whose code is not among the sources.
  The restarter state holds the one unit under consideration and what the unit's
  code does to its surroundings:
  \<^item> \<open>r_ts\<close>, the timer set: \<^verbatim>\<open>timerset_add (ts, msec, data, cb)\<close> registers a timer
    and returns its id (never 0, which the unit uses for "no timer"),
    \<^verbatim>\<open>timerset_del (ts, id)\<close> removes it;
  \<^item> \<open>r_watched\<close>, the PIDs the process tracker watches;
  \<^item> \<open>r_fork_results\<close> and \<open>r_forks\<close>: the PID that the k-th call of
    \<^verbatim>\<open>S16ProcessForkAndWait\<close> yields (0 when it fails), and the number of calls so far;
  \<^item> \<open>r_signals\<close>, the signals sent with \<^verbatim>\<open>kill\<close>;
  \<^item> \<open>r_repository\<close>, the path \<^verbatim>\<open>S16PathOfRepository ()\<close>, and \<open>r_configd_came_up\<close>,
    the number of calls of \<^verbatim>\<open>manager_configd_came_up\<close>.
\<close>

record restartd =
  r_unit :: Unit
  r_ts :: "timer_t list"
  r_next_timer_id :: nat
  r_watched :: "nat list"
  r_fork_results :: "nat \<Rightarrow> nat"
  r_forks :: nat
  r_signals :: "(nat \<times> signal_t) list"
  r_repository :: S16Path
  r_configd_came_up :: nat

datatype S16ProcessTrackerEventType =
  kS16ProcessTrackerEventTypeChild | kS16ProcessTrackerEventTypeExit

text \<open>A process tracker event; \<open>pt_abnormal\<close> is \<^verbatim>\<open>S16ExitWasAbnormal (info->flags)\<close>.\<close>

record S16ProcessTrackerEvent =
  pt_event :: S16ProcessTrackerEventType
  pt_pid :: nat
  pt_abnormal :: bool

subsection \<open>Timers, processes, signals\<close>

text \<open>Modelled from the spec: \<^verbatim>\<open>timerset_add\<close> and \<^verbatim>\<open>timerset_del\<close> of the timer set
  ("add(msec, data, callback) \<rightarrow> id, del(id)"); the data is the unit. Ids count up
  from 1.\<close>

definition timerset_add :: "restartd \<Rightarrow> nat \<Rightarrow> timer_callback \<Rightarrow> nat \<times> restartd" where
  "timerset_add s msec cb =
     (let i = Suc (r_next_timer_id s)
      in (i, s\<lparr>r_ts := r_ts s @ [\<lparr>t_id = i, t_msec = msec, t_callback = cb\<rparr>],
               r_next_timer_id := i\<rparr>))"

definition timerset_del :: "restartd \<Rightarrow> nat \<Rightarrow> restartd" where
  "timerset_del s i = s\<lparr>r_ts := filter (\<lambda>t. t_id t \<noteq> i) (r_ts s)\<rparr>"

text \<open>The macros \<^verbatim>\<open>UnitTimerReg\<close> and \<^verbatim>\<open>UnitTimerDereg\<close> (lines 42-46).\<close>

definition UnitTimerReg :: "restartd \<Rightarrow> restartd" where
  "UnitTimerReg s =
     (let (i, s1) = timerset_add s 2000 CB_unit_timer_event
      in s1\<lparr>r_unit := (r_unit s1)\<lparr>u_timer_id := i\<rparr>\<rparr>)"

definition UnitTimerDereg :: "restartd \<Rightarrow> restartd" where
  "UnitTimerDereg s =
     (let s1 = timerset_del s (u_timer_id (r_unit s))
      in s1\<lparr>r_unit := (r_unit s1)\<lparr>u_timer_id := 0\<rparr>\<rparr>)"

definition state_to_S16ServiceMethodype :: "UnitState \<Rightarrow> UnitMethodType option" where
  "state_to_S16ServiceMethodype st =
     (if st = US_PRESTART then Some UM_PRESTART
      else if st = US_START then Some UM_START
      else if st = US_POSTSTART then Some UM_POSTSTART
      else if st = US_STOP then Some UM_STOP
      else if st = US_POSTSTOP then Some UM_POSTSTOP
      else None)"

definition unit_stopping :: "restartd \<Rightarrow> bool" where
  "unit_stopping s =
     (u_state (r_unit s) = US_STOP \<or> u_state (r_unit s) = US_STOPTERM
      \<or> u_state (r_unit s) = US_STOPKILL \<or> u_state (r_unit s) = US_POSTSTOP)"

definition unit_has_pid :: "restartd \<Rightarrow> nat \<Rightarrow> bool" where
  "unit_has_pid s pid = (pid \<in> set (u_pids (r_unit s)))"

text \<open>\<^verbatim>\<open>unit_deregister_pid\<close> (lines 93-97); \<^verbatim>\<open>pid_list_del\<close> leaves no entry for the
  PID.\<close>

definition unit_deregister_pid :: "restartd \<Rightarrow> nat \<Rightarrow> restartd" where
  "unit_deregister_pid s pid =
     s\<lparr>r_watched := removeAll pid (r_watched s),
       r_unit := (r_unit s)\<lparr>u_pids := removeAll pid (u_pids (r_unit s))\<rparr>\<rparr>"

text \<open>\<^verbatim>\<open>unit_fork_and_register\<close> (lines 100-120): 0 for failure, the PID otherwise.\<close>

definition unit_fork_and_register :: "restartd \<Rightarrow> string option \<Rightarrow> nat \<times> restartd" where
  "unit_fork_and_register s cmd =
     (let pid = r_fork_results s (r_forks s);
          s1 = s\<lparr>r_forks := Suc (r_forks s)\<rparr>
      in if pid = 0 then (0, s1)
         else (pid, s1\<lparr>r_watched := r_watched s1 @ [pid],
                        r_unit := (r_unit s1)\<lparr>u_pids := u_pids (r_unit s1) @ [pid]\<rparr>\<rparr>))"

text \<open>Modelled from the spec: \<^verbatim>\<open>kill (pid, sig)\<close> is recorded as a signal sent.\<close>

definition kill :: "restartd \<Rightarrow> nat \<Rightarrow> signal_t \<Rightarrow> restartd" where
  "kill s pid sig = s\<lparr>r_signals := r_signals s @ [(pid, sig)]\<rparr>"

text \<open>\<^verbatim>\<open>LL_each (&unit->pids, it) { kill (it->val, sig); }\<close>\<close>

definition kill_all :: "restartd \<Rightarrow> signal_t \<Rightarrow> restartd" where
  "kill_all s sig = s\<lparr>r_signals := r_signals s @ map (\<lambda>pid. (pid, sig)) (u_pids (r_unit s))\<rparr>"

subsection \<open>Entering states (lines 122-346)\<close>

text \<open>
  The functions that enter a state call one another, and every cycle of calls passes
  through \<^verbatim>\<open>unit_purge_and_target\<close> (a failed fork of the stop method calls it from
  \<^verbatim>\<open>unit_enter_stop\<close>, which it has called itself). The other functions take it as
  their first argument \<open>pat\<close>, and \<open>unit_purge_and_target\<close> is defined by recursion on
  a budget of nested calls.
\<close>

definition unit_enter_maintenance :: "restartd \<Rightarrow> restartd" where
  "unit_enter_maintenance s = s\<lparr>r_unit := (r_unit s)\<lparr>u_state := UkS16StateMaintenance\<rparr>\<rparr>"

definition unit_enter_offline :: "restartd \<Rightarrow> restartd" where
  "unit_enter_offline s = s\<lparr>r_unit := (r_unit s)\<lparr>u_state := UkS16StateOffline\<rparr>\<rparr>"

text \<open>\<^verbatim>\<open>unit_enter_online\<close> (lines 246-252): the comparison of the path pointers is
  the comparison of the paths.\<close>

definition unit_enter_online :: "restartd \<Rightarrow> restartd" where
  "unit_enter_online s =
     (if u_path (r_unit s) = r_repository s
      then s\<lparr>r_configd_came_up := Suc (r_configd_came_up s)\<rparr> else s)"

definition unit_enter_poststart ::
  "(restartd \<Rightarrow> unit_error + restartd) \<Rightarrow> restartd \<Rightarrow> unit_error + restartd" where
  "unit_enter_poststart pat s =
     (if u_methods (r_unit s) UM_POSTSTART \<noteq> None then
        (let s1 = s\<lparr>r_unit := (r_unit s)\<lparr>u_state := US_POSTSTART\<rparr>\<rparr>;
             s2 = UnitTimerReg s1;
             (pid, s3) = unit_fork_and_register s2 (u_methods (r_unit s2) UM_POSTSTART);
             s4 = s3\<lparr>r_unit := (r_unit s3)\<lparr>u_secondary_pid := pid\<rparr>\<rparr>
         in if pid = 0
            then pat (s4\<lparr>r_unit := (r_unit s4)\<lparr>u_target := UkS16StateMaintenance\<rparr>\<rparr>)
            else Inr s4)
      else Inr (unit_enter_online s))"

definition unit_enter_start ::
  "(restartd \<Rightarrow> unit_error + restartd) \<Rightarrow> restartd \<Rightarrow> unit_error + restartd" where
  "unit_enter_start pat s =
     (let s1 = s\<lparr>r_unit := (r_unit s)\<lparr>u_state := US_START\<rparr>\<rparr>;
          (pid, s2) = unit_fork_and_register s1 (u_methods (r_unit s1) UM_START);
          s3 = s2\<lparr>r_unit := (r_unit s2)\<lparr>u_main_pid := pid\<rparr>\<rparr>
      in if pid = 0
         then pat (s3\<lparr>r_unit := (r_unit s3)\<lparr>u_target := UkS16StateMaintenance\<rparr>\<rparr>)
         else if u_type (r_unit s3) = U_SIMPLE \<or> u_type (r_unit s3) = U_ONESHOT
                 \<or> u_type (r_unit s3) = U_GROUP
         then unit_enter_poststart pat s3
         else Inr (UnitTimerReg s3))"

definition unit_enter_prestart ::
  "(restartd \<Rightarrow> unit_error + restartd) \<Rightarrow> restartd \<Rightarrow> unit_error + restartd" where
  "unit_enter_prestart pat s =
     (if u_methods (r_unit s) UM_PRESTART \<noteq> None then
        (let s1 = s\<lparr>r_unit := (r_unit s)\<lparr>u_state := US_PRESTART\<rparr>\<rparr>;
             s2 = UnitTimerReg s1;
             (pid, s3) = unit_fork_and_register s2 (u_methods (r_unit s2) UM_PRESTART);
             s4 = s3\<lparr>r_unit := (r_unit s3)\<lparr>u_main_pid := pid\<rparr>\<rparr>
         in if pid = 0
            then pat (s4\<lparr>r_unit := (r_unit s4)\<lparr>u_target := UkS16StateMaintenance\<rparr>\<rparr>)
            else Inr s4)
      else unit_enter_start pat s)"

text \<open>\<^verbatim>\<open>unit_enter_state\<close> (lines 321-346); the \<^verbatim>\<open>switch\<close> has no case for the
  stopping states and Uninitialised, which fall through without effect.\<close>

definition unit_enter_state ::
  "(restartd \<Rightarrow> unit_error + restartd) \<Rightarrow> restartd \<Rightarrow> UnitState \<Rightarrow> unit_error + restartd" where
  "unit_enter_state pat s st =
     (case st of
        UkS16StateOffline \<Rightarrow> Inr (unit_enter_offline s)
      | UkS16StateMaintenance \<Rightarrow> Inr (unit_enter_maintenance s)
      | US_PRESTART \<Rightarrow> unit_enter_prestart pat s
      | US_START \<Rightarrow> unit_enter_start pat s
      | US_POSTSTART \<Rightarrow> unit_enter_poststart pat s
      | UkS16StateOnline \<Rightarrow> Inr (unit_enter_online s)
      | UkS16StateNone \<Rightarrow> Inr (s\<lparr>r_unit := (r_unit s)\<lparr>u_state := UkS16StateNone\<rparr>\<rparr>)
      | _ \<Rightarrow> Inr s)"

definition unit_enter_stopterm ::
  "(restartd \<Rightarrow> unit_error + restartd) \<Rightarrow> restartd \<Rightarrow> unit_error + restartd" where
  "unit_enter_stopterm pat s =
     (if u_pids (r_unit s) = [] then unit_enter_state pat s (u_target (r_unit s))
      else
        (let s1 = s\<lparr>r_unit := (r_unit s)\<lparr>u_state := US_STOPTERM\<rparr>\<rparr>;
             s2 = (if u_main_pid (r_unit s1) \<noteq> 0
                   then kill s1 (u_main_pid (r_unit s1)) SIGTERM else s1);
             s3 = UnitTimerReg s2
         in Inr (kill_all s3 SIGTERM)))"

definition unit_enter_stopkill ::
  "(restartd \<Rightarrow> unit_error + restartd) \<Rightarrow> restartd \<Rightarrow> unit_error + restartd" where
  "unit_enter_stopkill pat s =
     (if u_pids (r_unit s) = [] then unit_enter_state pat s (u_target (r_unit s))
      else
        (let s1 = s\<lparr>r_unit := (r_unit s)\<lparr>u_state := US_STOPKILL\<rparr>\<rparr>;
             s2 = (if u_main_pid (r_unit s1) \<noteq> 0
                   then kill s1 (u_main_pid (r_unit s1)) SIGKILL else s1);
             s3 = UnitTimerReg s2
         in Inr (kill_all s3 SIGKILL)))"

definition unit_enter_stop ::
  "(restartd \<Rightarrow> unit_error + restartd) \<Rightarrow> restartd \<Rightarrow> unit_error + restartd" where
  "unit_enter_stop pat s =
     (if u_methods (r_unit s) UM_STOP \<noteq> None then
        (let s1 = s\<lparr>r_unit := (r_unit s)\<lparr>u_state := US_STOP\<rparr>\<rparr>;
             s2 = UnitTimerReg s1;
             (pid, s3) = unit_fork_and_register s2 (u_methods (r_unit s2) UM_STOP);
             s4 = s3\<lparr>r_unit := (r_unit s3)\<lparr>u_secondary_pid := pid\<rparr>\<rparr>
         in if pid = 0
            then pat (s4\<lparr>r_unit := (r_unit s4)\<lparr>u_target := UkS16StateMaintenance\<rparr>\<rparr>)
            else Inr s4)
      else unit_enter_stopterm pat s)"

text \<open>\<^verbatim>\<open>unit_purge_and_target\<close> (lines 124-134).\<close>

primrec unit_purge_and_target :: "nat \<Rightarrow> restartd \<Rightarrow> unit_error + restartd" where
  "unit_purge_and_target 0 s = Inl UnitOutOfFuel"
| "unit_purge_and_target (Suc n) s =
     (if u_pids (r_unit s) \<noteq> [] then unit_enter_stop (unit_purge_and_target n) s
      else unit_enter_state (unit_purge_and_target n) s (u_target (r_unit s)))"

text \<open>\<^verbatim>\<open>unit_restart_begin_cb\<close> (lines 136-142), called by the timer set with the id
  of the timer that fired.\<close>

definition unit_restart_begin_cb :: "nat \<Rightarrow> restartd \<Rightarrow> nat \<Rightarrow> unit_error + restartd" where
  "unit_restart_begin_cb n s i =
     (let s1 = s\<lparr>r_unit := (r_unit s)\<lparr>u_meth_restart_timer_id := 0\<rparr>\<rparr>;
          s2 = timerset_del s1 i
      in unit_enter_prestart (unit_purge_and_target n) s2)"

text \<open>\<^verbatim>\<open>unit_retry_start\<close> (lines 145-152): the timer is added with the literal 500;
  the parameter \<open>msecs\<close> is not used.\<close>

definition unit_retry_start :: "nat \<Rightarrow> restartd \<Rightarrow> int \<Rightarrow> unit_error + restartd" where
  "unit_retry_start n s msecs =
     (let s1 = s\<lparr>r_unit := (r_unit s)\<lparr>u_target := UkS16StateNone\<rparr>\<rparr>
      in case unit_purge_and_target n s1 of
           Inl e \<Rightarrow> Inl e
         | Inr s2 \<Rightarrow>
             (let (i, s3) = timerset_add s2 500 CB_unit_restart_begin_cb
              in Inr (s3\<lparr>r_unit := (r_unit s3)\<lparr>u_meth_restart_timer_id := i\<rparr>\<rparr>)))"

subsection \<open>Events (lines 348-636)\<close>

text \<open>The counting of a failed method, shared by the main PID and the secondary PID
  branch of \<^verbatim>\<open>unit_ptevent\<close>: \<^verbatim>\<open>fail_cnt\<close> of the method of the current state is
  incremented; above 5 the unit targets Maintenance, otherwise \<open>retry\<close> becomes the
  target and \<^verbatim>\<open>unit_retry_start (unit, 5000)\<close> is called.\<close>

definition method_failed ::
  "nat \<Rightarrow> restartd \<Rightarrow> UnitState \<Rightarrow> unit_error + restartd" where
  "method_failed n s retry =
     (case state_to_S16ServiceMethodype (u_state (r_unit s)) of
        None \<Rightarrow> Inl FailCntOutOfBounds
      | Some m \<Rightarrow>
          (let cnt = u_fail_cnt (r_unit s) m + 1;
               s1 = s\<lparr>r_unit := (r_unit s)\<lparr>u_fail_cnt := (u_fail_cnt (r_unit s))(m := cnt)\<rparr>\<rparr>
           in if cnt > 5
              then unit_purge_and_target n
                     (s1\<lparr>r_unit := (r_unit s1)\<lparr>u_target := UkS16StateMaintenance\<rparr>\<rparr>)
              else unit_retry_start n (s1\<lparr>r_unit := (r_unit s1)\<lparr>u_target := retry\<rparr>\<rparr>) 5000))"

definition unit_ptevent ::
  "nat \<Rightarrow> restartd \<Rightarrow> S16ProcessTrackerEvent \<Rightarrow> unit_error + restartd" where
  "unit_ptevent n s0 info =
     (let pat = unit_purge_and_target n;
          s = (if pt_event info = kS16ProcessTrackerEventTypeChild then
                 (if unit_has_pid s0 (pt_pid info) then s0
                  else s0\<lparr>r_watched := r_watched s0 @ [pt_pid info],
                          r_unit := (r_unit s0)\<lparr>u_pids := u_pids (r_unit s0) @ [pt_pid info]\<rparr>\<rparr>)
               else unit_deregister_pid s0 (pt_pid info))
      in if pt_event info = kS16ProcessTrackerEventTypeExit \<and> unit_stopping s then
           (if u_state (r_unit s) = US_STOP then
              (if u_pids (r_unit s) = []
               then unit_enter_stopterm pat (timerset_del s (u_timer_id (r_unit s)))
               else Inr s)
            else if u_state (r_unit s) = US_STOPTERM then
              (if u_pids (r_unit s) = []
               then unit_enter_stopkill pat (timerset_del s (u_timer_id (r_unit s)))
               else Inr s)
            else Inr s)
         else if pt_event info = kS16ProcessTrackerEventTypeExit
                 \<and> pt_pid info = u_main_pid (r_unit s) then
           (let s1 = s\<lparr>r_unit := (r_unit s)\<lparr>u_main_pid := 0\<rparr>\<rparr>;
                s2 = (if u_timer_id (r_unit s1) \<noteq> 0
                      then timerset_del s1 (u_timer_id (r_unit s1)) else s1)
            in if pt_abnormal info then
                 (if u_state (r_unit s2) = UkS16StateOnline
                  then pat (s2\<lparr>r_unit := (r_unit s2)\<lparr>u_target := UkS16StateOffline\<rparr>\<rparr>)
                  else method_failed n s2 (u_state (r_unit s2)))
               else if u_state (r_unit s2) = US_PRESTART
               then pat (s2\<lparr>r_unit := (r_unit s2)\<lparr>u_target := US_START\<rparr>\<rparr>)
               else if u_state (r_unit s2) = UkS16StateOnline
                       \<or> u_state (r_unit s2) = US_POSTSTART then
                 (if u_type (r_unit s2) = U_SIMPLE
                  then unit_enter_stop pat
                         (s2\<lparr>r_unit := (r_unit s2)\<lparr>u_target := UkS16StateOffline\<rparr>\<rparr>)
                  else if u_type (r_unit s2) \<noteq> U_GROUP \<and> u_pids (r_unit s2) = []
                  then unit_enter_stop pat
                         (s2\<lparr>r_unit := (r_unit s2)\<lparr>u_target := UkS16StateOffline\<rparr>\<rparr>)
                  else Inr s2)
               else Inr s2)
         else if pt_event info = kS16ProcessTrackerEventTypeExit
                 \<and> pt_pid info = u_secondary_pid (r_unit s) then
           (if u_state (r_unit s) = US_POSTSTART then
              (let s1 = (if u_timer_id (r_unit s) \<noteq> 0
                         then timerset_del s (u_timer_id (r_unit s)) else s);
                   s2 = s1\<lparr>r_unit := (r_unit s1)\<lparr>u_secondary_pid := 0\<rparr>\<rparr>
               in if pt_abnormal info then method_failed n s2 US_PRESTART
                  else Inr (unit_enter_online s2))
            else Inr s)
         else Inr s)"

definition unit_timer_event :: "nat \<Rightarrow> restartd \<Rightarrow> nat \<Rightarrow> unit_error + restartd" where
  "unit_timer_event n s0 i =
     (let pat = unit_purge_and_target n;
          s = timerset_del (s0\<lparr>r_unit := (r_unit s0)\<lparr>u_timer_id := 0\<rparr>\<rparr>) i
      in if u_state (r_unit s) = US_STOP then unit_enter_stopterm pat s
         else if u_state (r_unit s) = US_STOPTERM then Inr s
         else if u_state (r_unit s) = US_STOPKILL
         then unit_enter_state pat s (u_target (r_unit s))
         else if u_state (r_unit s) = US_PRESTART \<or> u_state (r_unit s) = US_START then
           (let cnt = u_fail_cnt (r_unit s) UM_PRESTART + 1;
                s1 = s\<lparr>r_unit := (r_unit s)
                          \<lparr>u_fail_cnt := (u_fail_cnt (r_unit s))(UM_PRESTART := cnt)\<rparr>\<rparr>
            in if cnt > 5
               then pat (s1\<lparr>r_unit := (r_unit s1)\<lparr>u_target := UkS16StateMaintenance\<rparr>\<rparr>)
               else pat (s1\<lparr>r_unit := (r_unit s1)\<lparr>u_target := US_PRESTART\<rparr>\<rparr>))
         else Inr s)"

definition unit_notify_ready :: "nat \<Rightarrow> restartd \<Rightarrow> unit_error + restartd" where
  "unit_notify_ready n s =
     (if u_state (r_unit s) = US_START
      then unit_enter_poststart (unit_purge_and_target n) (UnitTimerDereg s)
      else Inr s)"


text \<open>The unit that \<^verbatim>\<open>unit_add\<close> allocates (lines 611-622): \<^verbatim>\<open>calloc\<close> clears the
  PIDs, the timer ids and the failure counters; type and methods are filled in by
  code that is not among the sources.\<close>

definition unit_add :: "S16Path \<Rightarrow> UnitType \<Rightarrow> (UnitMethodType \<Rightarrow> string option) \<Rightarrow> Unit" where
  "unit_add p t ms =
     \<lparr>u_path = p, u_type = t, u_methods = ms, u_state = UkS16StateUninitialised,
      u_target = UkS16StateUninitialised, u_main_pid = 0, u_secondary_pid = 0, u_pids = [],
      u_timer_id = 0, u_meth_restart_timer_id = 0, u_fail_cnt = (\<lambda>_. 0)\<rparr>"


subsection \<open>Example units\<close>

text \<open>A Simple unit a:i with a PreStart and a Start method, as \<^verbatim>\<open>unit_add\<close> leaves
  it, in a restarter whose k-th fork yields the PID 100 + k.\<close>

definition example_unit :: Unit where
  "example_unit =
     unit_add \<lparr>svc = ''a'', inst = Some ''i''\<rparr> U_SIMPLE
       ((\<lambda>_. None)(UM_PRESTART := Some ''/etc/a/prestart'', UM_START := Some ''/usr/sbin/a''))"

definition example_restartd :: restartd where
  "example_restartd =
     \<lparr>r_unit = example_unit, r_ts = [], r_next_timer_id = 0, r_watched = [],
      r_fork_results = (\<lambda>k. 100 + k), r_forks = 0, r_signals = [],
      r_repository = \<lparr>svc = ''s16.repository'', inst = Some ''default''\<rparr>,
      r_configd_came_up = 0\<rparr>"

text \<open>The same unit in state PostStart: its Start process 100 runs, its PostStart
  method runs as process 101 under the timer 1.\<close>

definition poststart_restartd :: restartd where
  "poststart_restartd =
     example_restartd
       \<lparr>r_unit := example_unit
          \<lparr>u_methods := (u_methods example_unit)(UM_POSTSTART := Some ''/etc/a/poststart''),
           u_state := US_POSTSTART, u_main_pid := 100, u_secondary_pid := 101,
           u_pids := [100, 101], u_timer_id := 1\<rparr>,
        r_ts := [\<lparr>t_id = 1, t_msec = 2000, t_callback = CB_unit_timer_event\<rparr>],
        r_next_timer_id := 1, r_watched := [100, 101], r_forks := 2\<rparr>"

subsection \<open>A persistently failing PreStart method\<close>

text \<open>
  Modelled from the spec: the two sources of events of the unit are external. The
  timer set ("add(msec, data, callback) \<rightarrow> id, del(id); callbacks run on the event
  thread") calls the callback of a registered timer with the timer's id when the timer
  expires; an id that is not registered has no callback. It does not remove the timer
  itself: both callbacks of \<^verbatim>\<open>unit.c\<close> delete the timer they are called for.
\<close>

definition timerset_expire :: "nat \<Rightarrow> restartd \<Rightarrow> nat \<Rightarrow> unit_error + restartd" where
  "timerset_expire n s i =
     (case find (\<lambda>t. t_id t = i) (r_ts s) of
        None \<Rightarrow> Inr s
      | Some t \<Rightarrow>
          (case t_callback t of
             CB_unit_timer_event \<Rightarrow> unit_timer_event n s i
           | CB_unit_restart_begin_cb \<Rightarrow> unit_restart_begin_cb n s i))"

text \<open>
  Modelled from the spec: the process tracker ("watch(pid), disregard(pid); inbound
  events {pid, event, flags}") reports the exit of a PID that it watches, \<open>abnormal\<close>
  being what \<^verbatim>\<open>S16ExitWasAbnormal\<close> makes of the flags; the exit of another PID is not
  reported to the unit.
\<close>

definition tracker_exit :: "nat \<Rightarrow> restartd \<Rightarrow> nat \<Rightarrow> bool \<Rightarrow> unit_error + restartd" where
  "tracker_exit n s pid abnormal =
     (if pid \<in> set (r_watched s)
      then unit_ptevent n s
             \<lparr>pt_event = kS16ProcessTrackerEventTypeExit, pt_pid = pid, pt_abnormal = abnormal\<rparr>
      else Inr s)"

text \<open>
  An attempt of the PreStart method is under way in a state \<open>prestart_running\<close>: the
  unit is in PreStart; the process of its PreStart method is its main PID and its only
  tracked PID, it came from an earlier fork and the process tracker watches it; the
  timer of the method is the only timer in the timer set.
\<close>

definition prestart_running :: "restartd \<Rightarrow> bool" where
  "prestart_running s \<longleftrightarrow>
     u_state (r_unit s) = US_PRESTART
     \<and> u_methods (r_unit s) UM_PRESTART \<noteq> None
     \<and> u_pids (r_unit s) = [u_main_pid (r_unit s)]
     \<and> u_main_pid (r_unit s) \<in> set (r_watched s)
     \<and> (\<exists>k<r_forks s. u_main_pid (r_unit s) = r_fork_results s k)
     \<and> u_timer_id (r_unit s) \<noteq> 0
     \<and> r_ts s = [\<lparr>t_id = u_timer_id (r_unit s), t_msec = 2000,
                   t_callback = CB_unit_timer_event\<rparr>]"

text \<open>Every fork succeeds, with a PID that no other fork yields: the methods can be
  started again and again.\<close>

definition forks_succeed :: "restartd \<Rightarrow> bool" where
  "forks_succeed s \<longleftrightarrow> inj (r_fork_results s) \<and> (\<forall>k. r_fork_results s k \<noteq> 0)"

text \<open>
  The two ways in which an attempt fails, and the event that ends it:
  \<^item> \<open>AbnormalExit\<close>: the process tracker reports the abnormal exit of the main PID;
  \<^item> \<open>Timeout\<close>: the timer of the method expires.
\<close>

datatype prestart_failure = AbnormalExit | Timeout

definition failure_event :: "nat \<Rightarrow> prestart_failure \<Rightarrow> restartd \<Rightarrow> unit_error + restartd" where
  "failure_event n k s =
     (case k of
        AbnormalExit \<Rightarrow> tracker_exit n s (u_main_pid (r_unit s)) True
      | Timeout \<Rightarrow> timerset_expire n s (u_timer_id (r_unit s)))"

text \<open>
  What follows the failure. The unit has asked a process to stop when it has sent it
  SIGTERM or SIGKILL, or when its stop method runs (state Stop). Whether a process
  then exits is up to the process: \<open>stops pid\<close> says that \<open>pid\<close> does. After the failure
  the tracked processes that have been asked to stop and do stop exit, one after the
  other, and then the restart timers that are pending in the timer set expire.
\<close>

definition asked_to_stop :: "restartd \<Rightarrow> nat \<Rightarrow> bool" where
  "asked_to_stop s pid \<longleftrightarrow>
     u_state (r_unit s) = US_STOP
     \<or> (pid, SIGTERM) \<in> set (r_signals s) \<or> (pid, SIGKILL) \<in> set (r_signals s)"

primrec deliver_exits :: "nat \<Rightarrow> restartd \<Rightarrow> nat list \<Rightarrow> unit_error + restartd" where
  "deliver_exits n s [] = Inr s"
| "deliver_exits n s (pid # pids) =
     (case tracker_exit n s pid True of
        Inl e \<Rightarrow> Inl e
      | Inr s1 \<Rightarrow> deliver_exits n s1 pids)"

definition pending_restarts :: "restartd \<Rightarrow> nat list" where
  "pending_restarts s =
     map t_id (filter (\<lambda>t. t_callback t = CB_unit_restart_begin_cb) (r_ts s))"

primrec expire_timers :: "nat \<Rightarrow> restartd \<Rightarrow> nat list \<Rightarrow> unit_error + restartd" where
  "expire_timers n s [] = Inr s"
| "expire_timers n s (i # is) =
     (case timerset_expire n s i of
        Inl e \<Rightarrow> Inl e
      | Inr s1 \<Rightarrow> expire_timers n s1 is)"

definition settle :: "nat \<Rightarrow> (nat \<Rightarrow> bool) \<Rightarrow> restartd \<Rightarrow> unit_error + restartd" where
  "settle n stops s =
     (case deliver_exits n s
             (filter (\<lambda>pid. asked_to_stop s pid \<and> stops pid) (u_pids (r_unit s))) of
        Inl e \<Rightarrow> Inl e
      | Inr s1 \<Rightarrow> expire_timers n s1 (pending_restarts s1))"

definition fail_prestart ::
  "nat \<Rightarrow> (nat \<Rightarrow> bool) \<Rightarrow> prestart_failure \<Rightarrow> restartd \<Rightarrow> unit_error + restartd" where
  "fail_prestart n stops k s =
     (case failure_event n k s of
        Inl e \<Rightarrow> Inl e
      | Inr s1 \<Rightarrow> settle n stops s1)"




section \<open>Verified properties of the graph engine\<close>

lemmas example_vertex_defs =
  vtx_new_def no_vertex_def inst_vertex_def svc_vertex_def depgroup_vertex_def

text \<open>
  C1 (RequireAny): the claim says that a RequireAny group all of whose children are
  UNSATISFIABLE is UNSATISFIABLE. The accumulator of the branch is a \<^verbatim>\<open>bool\<close>, so the
  value returned after the loop is 0 or 1: on \<open>any_graph\<close> both children of the group
  are UNSATISFIABLE and \<open>depgroup_is_satisfied\<close> returns UNSATISFIED.
\<close>

theorem C1_require_any_returns_unsatisfied:
  "vtx_satisfies (depgroup_is_satisfied 0 any_graph False) any_graph 1 False = Inr UNSATISFIABLE
   \<and> vtx_satisfies (depgroup_is_satisfied 0 any_graph False) any_graph 2 False = Inr UNSATISFIABLE
   \<and> dg_type (any_graph 0) = kS16RequireAny
   \<and> depgroup_is_satisfied (Suc 0) any_graph False 0 = Inr UNSATISFIED"
  by (simp add: any_graph_def example_vertex_defs depgroup_body_def vtx_satisfies_def
        vtx_inst_satisfies_def satisfied_to_bool_def bool_to_satisfied_def)

text \<open>
  C5 (ExcludeAll over a Service): the claim says that the exclusion rule is applied to
  each Instance reached through the Service's dependency edges. The inner loop passes
  the Service itself to \<open>vtx_inst_satisfies_exclusion\<close>, whose assertion on the vertex
  type then fails: on \<open>exclude_graph\<close> the rule applied to the Instance b:j gives
  UNSATISFIABLE, and \<open>depgroup_is_satisfied\<close> on the group aborts, whatever the budget,
  and never returns UNSATISFIABLE.
\<close>

theorem C5_exclude_all_service_target_aborts:
  "vtx_inst_satisfies_exclusion exclude_graph 2 = Inr UNSATISFIABLE
   \<and> dg_type (exclude_graph 0) = kS16ExcludeAll
   \<and> vtype (exclude_graph 1) = V_SVC
   \<and> depgroup_is_satisfied n exclude_graph recurse 0 \<noteq> Inr UNSATISFIABLE
   \<and> depgroup_is_satisfied (Suc n) exclude_graph recurse 0 = Inl AssertFailed"
  by (cases n)
     (simp_all add: exclude_graph_def example_vertex_defs depgroup_body_def
        vtx_inst_satisfies_exclusion_def)

text \<open>
  C2 (cycle check): the claim says that \<open>vtx_dependency_add u v\<close> returns 1 and adds
  nothing exactly when \<open>v\<close> reaches \<open>u\<close>. On \<open>shared_target_graph\<close> the instance x:i
  (0) reaches the group of y:j (5) along the edges 0-2, 2-4, 4-5, none of the vertices
  being an ExcludeAll group; the search from 0 stops at the second visit of c:k (3),
  so adding the dependency of the group 5 on x:i returns 0 with an empty path and
  adds the edge 5-0, which closes a cycle.
\<close>

theorem C2_dependency_add_accepts_cycle:
  "Edge 0 2 \<in> set (dependencies (shared_target_graph 0))
   \<and> Edge 2 4 \<in> set (dependencies (shared_target_graph 2))
   \<and> Edge 4 5 \<in> set (dependencies (shared_target_graph 4))
   \<and> vtx_dependency_add 6 shared_target_graph 5 0 []
       = Inr (0, vtx_edge_add shared_target_graph 5 0, [])
   \<and> Edge 5 0 \<in> set (dependencies (vtx_edge_add shared_target_graph 5 0 5))"
  by (simp add: shared_target_graph_def example_vertex_defs vtx_dependency_add_def
        vtx_is_reachable_def vtx_edge_add_def eval_nat_numeral)

subsection \<open>Recursion along the dependents: \<open>vtx_can_go_down\<close>\<close>

lemma rankedD: "ranked sel h rk \<Longrightarrow> e \<in> set (sel (h v)) \<Longrightarrow> rk (edge_to e) < rk v"
  by (simp add: ranked_def)

text \<open>A rank for all the edges of a list is a rank for the edges that a walk follows.\<close>

lemma ranked_subset:
  "ranked sel h rk \<Longrightarrow> (\<And>x. set (sel' (h x)) \<subseteq> set (sel (h x))) \<Longrightarrow> ranked sel' h rk"
  by (auto simp: ranked_def)

lemma ranked_down_edges: "ranked dependents h rk \<Longrightarrow> ranked (down_edges h) h rk"
  by (rule ranked_subset) (auto simp: down_edges_def)

lemma ranked_stop_edges: "ranked dependents h rk \<Longrightarrow> ranked (stop_edges r) h rk"
  by (rule ranked_subset) (auto simp: stop_edges_def split: vertex_type_t.splits)

lemma ranked_walk_edges: "ranked dependencies h rk \<Longrightarrow> ranked walk_edges h rk"
  by (rule ranked_subset) (auto simp: walk_edges_def)

lemma ranked_sat_edges: "ranked dependencies h rk \<Longrightarrow> ranked sat_edges h rk"
  by (rule ranked_subset) (auto simp: sat_edges_def)

text \<open>A result obtained within some budget is the result for every larger budget.\<close>

lemma can_go_down_mono_Suc:
  shows "vtx_can_go_down n h v root = Inr b \<Longrightarrow> vtx_can_go_down (Suc n) h v root = Inr b"
    and "can_go_down_loop n h es = Inr b \<Longrightarrow> can_go_down_loop (Suc n) h es = Inr b"
proof (induction n h v root and n h es arbitrary: b and b
    rule: vtx_can_go_down_can_go_down_loop.induct)
  case (1 h v root)
  then show ?case by simp
next
  case (2 n h v root)
  then show ?case by (auto split: sum.splits if_splits)
next
  case (3 n h)
  then show ?case by simp
next
  case (4 n h it rest)
  then show ?case by (auto split: sum.splits if_splits)
qed

lemma can_go_down_mono:
  "vtx_can_go_down n h v root = Inr b \<Longrightarrow> n \<le> m \<Longrightarrow> vtx_can_go_down m h v root = Inr b"
proof -
  have "vtx_can_go_down n h v root = Inr b \<Longrightarrow> vtx_can_go_down (n + k) h v root = Inr b" for k
    by (induction k) (auto intro: can_go_down_mono_Suc(1) simp del: vtx_can_go_down.simps)
  then show "vtx_can_go_down n h v root = Inr b \<Longrightarrow> n \<le> m \<Longrightarrow> vtx_can_go_down m h v root = Inr b"
    using le_Suc_ex by blast
qed

lemma can_go_down_loop_total:
  assumes "\<And>e. e \<in> set (down_edges h x) \<Longrightarrow> \<exists>b. vtx_can_go_down n h (edge_to e) False = Inr b"
    and "set es \<subseteq> set (dependents x)"
  shows "\<exists>b. can_go_down_loop n h es = Inr b"
  using assms(2)
proof (induction es)
  case Nil
  then show ?case by auto
next
  case (Cons e es)
  from Cons obtain c where c: "can_go_down_loop n h es = Inr c" by auto
  show ?case
  proof (cases "vtype (h (edge_to e)) = V_INST \<and> \<not> to_offline (h (edge_to e))")
    case True
    with c show ?thesis by simp
  next
    case False
    with Cons.prems have "e \<in> set (down_edges h x)" by (auto simp: down_edges_def)
    from assms(1) [OF this] obtain b where "vtx_can_go_down n h (edge_to e) False = Inr b" by blast
    with c False show ?thesis by (cases b) auto
  qed
qed

text \<open>When the edges that \<open>vtx_can_go_down\<close> follows lead into no cycle, a budget above the
  rank suffices.\<close>

lemma can_go_down_ends:
  "ranked (down_edges h) h rk \<Longrightarrow> rk v < n \<Longrightarrow> \<exists>b. vtx_can_go_down n h v root = Inr b"
proof (induction n arbitrary: v root)
  case 0
  then show ?case by simp
next
  case (Suc n)
  have "\<exists>b. can_go_down_loop n h (dependents (h v)) = Inr b"
  proof (rule can_go_down_loop_total [where x = "h v"])
    fix e assume "e \<in> set (down_edges h (h v))"
    with Suc.prems have "rk (edge_to e) < n" by (fastforce dest: rankedD)
    with Suc show "\<exists>b. vtx_can_go_down n h (edge_to e) False = Inr b" by blast
  qed simp
  then show ?case by auto
qed





lemma ranked_dependents_pending_offline_graph:
  "ranked dependents pending_offline_graph up_rank"
  by (auto simp: ranked_def pending_offline_graph_def example_vertex_defs up_rank_def)


subsection \<open>Stop notifications: \<open>vtx_notify_stop\<close>\<close>

lemma reason_of_extra_restart_on [simp]: "reason_of_extra (restart_on_val rsn) = restart_on_val rsn"
  by (cases rsn) (simp_all add: reason_of_extra_def)

lemma notify_stop_mono_Suc:
  shows "vtx_notify_stop n h v r q = Inr ns \<Longrightarrow> vtx_notify_stop (Suc n) h v r q = Inr ns"
    and "notify_stop_loop n h es r q = Inr ns \<Longrightarrow> notify_stop_loop (Suc n) h es r q = Inr ns"
proof (induction n h v r q and n h es r q arbitrary: ns and ns
    rule: vtx_notify_stop_notify_stop_loop.induct)
  case (1 h v r q)
  then show ?case by simp
next
  case (2 n h v r q)
  then show ?case by (auto split: vertex_type_t.splits if_splits)
next
  case (3 n h r q)
  then show ?case by simp
next
  case (4 n h it rest r q)
  from "4.prems" obtain ns1 where
    a: "vtx_notify_stop n h (edge_to it) r q = Inr ns1" and
    l: "notify_stop_loop n h rest r ns1 = Inr ns"
    by (auto split: sum.splits)
  from "4.IH"(1) [OF a] "4.IH"(2) [OF a l] show ?case
    by (simp del: vtx_notify_stop.simps)
qed

lemma notify_stop_appends:
  shows "vtx_notify_stop n h v r q = Inr ns \<Longrightarrow> \<exists>new. ns = q @ new"
    and "notify_stop_loop n h es r q = Inr ns \<Longrightarrow> \<exists>new. ns = q @ new"
proof (induction n h v r q and n h es r q arbitrary: ns and ns
    rule: vtx_notify_stop_notify_stop_loop.induct)
  case (1 h v r q)
  then show ?case by simp
next
  case (2 n h v r q)
  then show ?case by (auto split: vertex_type_t.splits if_splits)
next
  case (3 n h r q)
  then show ?case by simp
next
  case (4 n h it rest r q)
  from "4.prems" obtain ns1 where
    a: "vtx_notify_stop n h (edge_to it) r q = Inr ns1" and
    l: "notify_stop_loop n h rest r ns1 = Inr ns"
    by (auto split: sum.splits)
  from "4.IH"(1) [OF a] "4.IH"(2) [OF a l] show ?case by auto
qed

text \<open>The stop goes on along the \<open>stop_edges\<close> of a vertex that is not an Instance.\<close>

lemma notify_stop_step:
  "vtype (h v) \<noteq> V_INST \<Longrightarrow>
   vtx_notify_stop (Suc n) h v r q = notify_stop_loop n h (stop_edges r (h v)) r q"
  by (cases "vtype (h v)") (simp_all add: stop_edges_def)

lemma notify_stop_loop_no_fuel: "notify_stop_loop n h [] r q = Inr q"
  by simp

lemma notify_stop_ends:
  shows "ranked (stop_edges r) h rk \<Longrightarrow> rk v < n \<Longrightarrow> \<exists>ns. vtx_notify_stop n h v r q = Inr ns"
    and "ranked (stop_edges r) h rk \<Longrightarrow> \<forall>e\<in>set es. rk (edge_to e) < n
           \<Longrightarrow> \<exists>ns. notify_stop_loop n h es r q = Inr ns"
proof (induction n h v r q and n h es r q
    rule: vtx_notify_stop_notify_stop_loop.induct)
  case (1 h v r q)
  then show ?case by simp
next
  case (2 n h v r q)
  then have d: "\<forall>e\<in>set (stop_edges r (h v)). rk (edge_to e) < n"
    by (fastforce dest: rankedD)
  show ?case
  proof (cases "vtype (h v)")
    case V_INST
    then show ?thesis by simp
  next
    case V_SVC
    with d have "\<forall>e\<in>set (dependents (h v)). rk (edge_to e) < n" by (simp add: stop_edges_def)
    from "2.IH"(1) [OF V_SVC "2.prems"(1) this] V_SVC show ?thesis by simp
  next
    case V_DEPGROUP
    show ?thesis
    proof (cases "dg_type (h v) = kS16ExcludeAll \<or> restart_on_val (restart_on (h v)) < reason_of_extra r")
      case True
      with V_DEPGROUP show ?thesis by auto
    next
      case False
      with d V_DEPGROUP have "\<forall>e\<in>set (dependents (h v)). rk (edge_to e) < n"
        by (simp add: stop_edges_def)
      from "2.IH"(2) [OF V_DEPGROUP _ _ "2.prems"(1) this] False V_DEPGROUP show ?thesis by simp
    qed
  qed
next
  case (3 n h r q)
  then show ?case by simp
next
  case (4 n h it rest r q)
  from "4.prems" "4.IH"(1) obtain ns1 where
    a: "vtx_notify_stop n h (edge_to it) r q = Inr ns1" by auto
  from "4.IH"(2) [OF a] "4.prems" obtain ns2 where
    "notify_stop_loop n h rest r ns1 = Inr ns2" by auto
  with a show ?case by (simp del: vtx_notify_stop.simps)
qed

lemma notify_stop_loop_emits:
  "notify_stop_loop n h es r q = Inr (q @ new) \<Longrightarrow> e \<in> set es \<Longrightarrow>
   vtype (h (edge_to e)) = V_INST \<Longrightarrow> vtx_is_running h (edge_to e) \<Longrightarrow>
   s16note_new N_STATE_CHANGE SC_OFFLINE (path (h (edge_to e))) r \<in> set new"
proof (induction es arbitrary: q new)
  case Nil
  then show ?case by simp
next
  case (Cons a es)
  from Cons.prems(1) obtain ns1 where
    a: "vtx_notify_stop n h (edge_to a) r q = Inr ns1" and
    l: "notify_stop_loop n h es r ns1 = Inr (q @ new)"
    by (auto split: sum.splits)
  from notify_stop_appends(1) [OF a] obtain n1 where n1: "ns1 = q @ n1" by blast
  from notify_stop_appends(2) [OF l] obtain n2 where n2: "q @ new = ns1 @ n2" by blast
  with n1 have new: "new = n1 @ n2" by simp
  show ?case
  proof (cases "e = a")
    case True
    from a obtain m where "n = Suc m" by (cases n) auto
    with a True Cons.prems(3,4) n1
    have "n1 = [s16note_new N_STATE_CHANGE SC_OFFLINE (path (h (edge_to e))) r]"
      by auto
    with new show ?thesis by simp
  next
    case False
    with Cons.prems have e: "e \<in> set es" by simp
    from l n2 have "notify_stop_loop n h es r ns1 = Inr (ns1 @ n2)" by simp
    from Cons.IH [OF this e Cons.prems(3,4)] new show ?thesis by simp
  qed
qed

text \<open>
  C4: a stop notification with intensity \<open>rsn\<close> that reaches a DepGroup \<open>v\<close>, on any
  graph. If the group is not ExcludeAll and \<open>restart_on v \<ge> rsn\<close> in the order None <
  Error < Restart < Refresh < Any, the notification is passed on: the call is the loop
  that notifies every dependent of \<open>v\<close> in turn, every result of it extends the queue,
  with the SC_OFFLINE note of every dependent that is a running Instance, and it
  returns when the edges along which the stop travels lead into no cycle. Otherwise
  the call returns at once with the queue as it was: nothing is passed on, whatever
  the dependents are.
\<close>

theorem C4_notify_stop_depgroup:
  assumes "vtype (h v) = V_DEPGROUP"
  shows "if dg_type (h v) \<noteq> kS16ExcludeAll
            \<and> restart_on_val rsn \<le> restart_on_val (restart_on (h v))
         then vtx_notify_stop (Suc n) h v (restart_on_val rsn) q
                = notify_stop_loop n h (dependents (h v)) (restart_on_val rsn) q
            \<and> (\<forall>ns. vtx_notify_stop (Suc n) h v (restart_on_val rsn) q = Inr ns \<longrightarrow>
                  (\<exists>new. ns = q @ new
                     \<and> (\<forall>e\<in>set (dependents (h v)).
                           vtype (h (edge_to e)) = V_INST \<and> vtx_is_running h (edge_to e) \<longrightarrow>
                           s16note_new N_STATE_CHANGE SC_OFFLINE (path (h (edge_to e)))
                             (restart_on_val rsn) \<in> set new)))
            \<and> (\<forall>rk. ranked (stop_edges (restart_on_val rsn)) h rk \<and> rk v \<le> n \<longrightarrow>
                  (\<exists>new. vtx_notify_stop (Suc n) h v (restart_on_val rsn) q = Inr (q @ new)))
         else vtx_notify_stop (Suc n) h v (restart_on_val rsn) q = Inr q"
proof (cases "dg_type (h v) \<noteq> kS16ExcludeAll
            \<and> restart_on_val rsn \<le> restart_on_val (restart_on (h v))")
  case False
  with assms show ?thesis by auto
next
  case True
  let ?r = "restart_on_val rsn"
  from True assms have eq: "vtx_notify_stop (Suc n) h v ?r q
      = notify_stop_loop n h (dependents (h v)) ?r q"
    by simp
  have emits: "\<exists>new. ns = q @ new
       \<and> (\<forall>e\<in>set (dependents (h v)).
             vtype (h (edge_to e)) = V_INST \<and> vtx_is_running h (edge_to e) \<longrightarrow>
             s16note_new N_STATE_CHANGE SC_OFFLINE (path (h (edge_to e))) ?r \<in> set new)"
    if ns: "vtx_notify_stop (Suc n) h v ?r q = Inr ns" for ns
  proof -
    from ns eq have l: "notify_stop_loop n h (dependents (h v)) ?r q = Inr ns" by simp
    from notify_stop_appends(2) [OF l] obtain new where new: "ns = q @ new" by blast
    from l new have l': "notify_stop_loop n h (dependents (h v)) ?r q = Inr (q @ new)" by simp
    have "s16note_new N_STATE_CHANGE SC_OFFLINE (path (h (edge_to e))) ?r \<in> set new"
      if "e \<in> set (dependents (h v))" "vtype (h (edge_to e)) = V_INST"
        "vtx_is_running h (edge_to e)" for e
      using notify_stop_loop_emits [OF l' that] .
    with new show ?thesis by blast
  qed
  have ends: "\<exists>new. vtx_notify_stop (Suc n) h v ?r q = Inr (q @ new)"
    if "ranked (stop_edges ?r) h rk \<and> rk v \<le> n" for rk
  proof -
    from that have "rk v < Suc n" by simp
    from notify_stop_ends(1) [OF that [THEN conjunct1] this] obtain ns where
      ns: "vtx_notify_stop (Suc n) h v ?r q = Inr ns" by blast
    from notify_stop_appends(1) [OF ns] ns show ?thesis by auto
  qed
  from True eq emits ends show ?thesis by (simp del: vtx_notify_stop.simps)
qed

theorem C4_notify_stop_depgroup_witness:
  "vtype (pending_offline_graph 0) = V_DEPGROUP
   \<and> dg_type (pending_offline_graph 0) = kS16RequireAll
   \<and> restart_on (pending_offline_graph 0) = kS16RestartOnAny
   \<and> ranked (stop_edges (restart_on_val kS16RestartOnRestart)) pending_offline_graph up_rank
   \<and> up_rank 0 \<le> 2
   \<and> vtx_notify_stop (Suc 2) pending_offline_graph 0 (restart_on_val kS16RestartOnRestart) []
       = Inr [s16note_new N_STATE_CHANGE SC_OFFLINE \<lparr>svc = ''a'', inst = Some ''i''\<rparr> 2]
   \<and> vtype (mutual_exclusion_graph 1) = V_DEPGROUP
   \<and> dg_type (mutual_exclusion_graph 1) = kS16ExcludeAll
   \<and> dependents (mutual_exclusion_graph 1) = [Edge 1 0]
   \<and> vtx_is_running mutual_exclusion_graph 0
   \<and> vtx_notify_stop (Suc 0) mutual_exclusion_graph 1 (restart_on_val kS16RestartOnRestart) []
       = Inr []
   \<and> restart_on_val (restart_on
         ((pending_offline_graph
            (0 := (pending_offline_graph 0)\<lparr>restart_on := kS16RestartOnError\<rparr>)) 0))
       < restart_on_val kS16RestartOnRestart
   \<and> vtx_notify_stop (Suc 0)
        (pending_offline_graph (0 := (pending_offline_graph 0)\<lparr>restart_on := kS16RestartOnError\<rparr>))
        0 (restart_on_val kS16RestartOnRestart) []
       = Inr []"
proof -
  have r: "ranked (stop_edges (restart_on_val kS16RestartOnRestart)) pending_offline_graph up_rank"
    by (rule ranked_stop_edges [OF ranked_dependents_pending_offline_graph])
  have l: "up_rank 0 \<le> 2" by (simp add: up_rank_def)
  have v: "vtype (pending_offline_graph 0) = V_DEPGROUP"
    "dg_type (pending_offline_graph 0) = kS16RequireAll"
    "restart_on (pending_offline_graph 0) = kS16RestartOnAny"
    "dependents (pending_offline_graph 0) = [Edge 0 1]"
    by (simp_all add: pending_offline_graph_def example_vertex_defs)
  have i: "vtype (pending_offline_graph 1) = V_INST" "vtx_is_running pending_offline_graph 1"
    "path (pending_offline_graph 1) = \<lparr>svc = ''a'', inst = Some ''i''\<rparr>"
    by (simp_all add: pending_offline_graph_def example_vertex_defs vtx_is_running_def)
  have m: "vtype (mutual_exclusion_graph 1) = V_DEPGROUP"
    "dg_type (mutual_exclusion_graph 1) = kS16ExcludeAll"
    "dependents (mutual_exclusion_graph 1) = [Edge 1 0]"
    "vtx_is_running mutual_exclusion_graph 0"
    by (simp_all add: mutual_exclusion_graph_def example_vertex_defs vtx_is_running_def)
  from C4_notify_stop_depgroup [where h = pending_offline_graph and v = 0
      and rsn = kS16RestartOnRestart and n = 2 and q = "[]", OF v(1)] v i
  have 1: "vtx_notify_stop (Suc 2) pending_offline_graph 0 (restart_on_val kS16RestartOnRestart) []
       = Inr [s16note_new N_STATE_CHANGE SC_OFFLINE \<lparr>svc = ''a'', inst = Some ''i''\<rparr> 2]"
    by (simp add: eval_nat_numeral reason_of_extra_def)
  from C4_notify_stop_depgroup [where h = mutual_exclusion_graph and v = 1
      and rsn = kS16RestartOnRestart and n = 0 and q = "[]", OF m(1)] m(2)
  have 2: "vtx_notify_stop (Suc 0) mutual_exclusion_graph 1 (restart_on_val kS16RestartOnRestart) []
       = Inr []"
    by (simp del: vtx_notify_stop.simps)
  have e: "vtype ((pending_offline_graph
            (0 := (pending_offline_graph 0)\<lparr>restart_on := kS16RestartOnError\<rparr>)) 0) = V_DEPGROUP"
    "restart_on_val (restart_on
         ((pending_offline_graph
            (0 := (pending_offline_graph 0)\<lparr>restart_on := kS16RestartOnError\<rparr>)) 0))
       < restart_on_val kS16RestartOnRestart"
    using v(1) by simp_all
  from C4_notify_stop_depgroup [where h = "pending_offline_graph
        (0 := (pending_offline_graph 0)\<lparr>restart_on := kS16RestartOnError\<rparr>)"
      and v = 0 and rsn = kS16RestartOnRestart and n = 0 and q = "[]", OF e(1)] e(2)
  have 3: "vtx_notify_stop (Suc 0)
        (pending_offline_graph (0 := (pending_offline_graph 0)\<lparr>restart_on := kS16RestartOnError\<rparr>))
        0 (restart_on_val kS16RestartOnRestart) []
       = Inr []"
    by (simp del: vtx_notify_stop.simps)
  from r l v(1-3) 1 m 2 e(2) 3 show ?thesis by (intro conjI)
qed

subsection \<open>Satisfiability: budget and assertions\<close>













text \<open>Above the rank of the vertex the budget is never used up.\<close>

lemma vtx_inst_satisfies_fuel:
  "f v \<noteq> Inl OutOfFuel \<Longrightarrow> vtx_inst_satisfies f h v r \<noteq> Inl OutOfFuel"
  by (auto simp: vtx_inst_satisfies_def split: S16State.splits sum.splits)

lemma vtx_inst_satisfies_optional_fuel:
  "f v \<noteq> Inl OutOfFuel \<Longrightarrow> vtx_inst_satisfies_optional f h v r \<noteq> Inl OutOfFuel"
  by (auto simp: vtx_inst_satisfies_optional_def split: S16State.splits sum.splits)

lemma vtx_satisfies_fuel:
  "f v \<noteq> Inl OutOfFuel \<Longrightarrow> vtx_satisfies f h v r \<noteq> Inl OutOfFuel"
  by (simp add: vtx_satisfies_def vtx_inst_satisfies_fuel)

lemma require_all_loop_fuel:
  "\<forall>e\<in>set es. f (edge_to e) \<noteq> Inl OutOfFuel \<Longrightarrow> require_all_loop f h es r s \<noteq> Inl OutOfFuel"
  by (induction es arbitrary: s) (auto split: sum.splits dest: vtx_satisfies_fuel)

lemma require_any_loop_fuel:
  "\<forall>e\<in>set es. f (edge_to e) \<noteq> Inl OutOfFuel \<Longrightarrow> require_any_loop f h es r s \<noteq> Inl OutOfFuel"
  by (induction es arbitrary: s) (auto split: sum.splits dest: vtx_satisfies_fuel)

lemma optional_svc_loop_fuel:
  "\<forall>e\<in>set es. f (edge_to e) \<noteq> Inl OutOfFuel \<Longrightarrow> optional_svc_loop f h es r s \<noteq> Inl OutOfFuel"
  by (induction es arbitrary: s)
     (auto simp: Let_def split: sum.splits dest: vtx_inst_satisfies_optional_fuel)

lemma optional_all_loop_fuel:
  "\<forall>e\<in>set es. f (edge_to e) \<noteq> Inl OutOfFuel
       \<and> (vtype (h (edge_to e)) = V_SVC \<longrightarrow>
            (\<forall>e'\<in>set (dependencies (h (edge_to e))). f (edge_to e') \<noteq> Inl OutOfFuel))
   \<Longrightarrow> optional_all_loop f h es r s \<noteq> Inl OutOfFuel"
proof (induction es arbitrary: s)
  case Nil
  then show ?case by simp
next
  case (Cons e es)
  show ?case
  proof (cases "vtype (h (edge_to e))")
    case V_DEPGROUP
    then show ?thesis by simp
  next
    case V_INST
    with Cons show ?thesis
      by (auto simp: Let_def split: sum.splits dest: vtx_inst_satisfies_optional_fuel)
  next
    case V_SVC
    with Cons.prems
    have "\<forall>e'\<in>set (dependencies (h (edge_to e))). f (edge_to e') \<noteq> Inl OutOfFuel"
      by simp
    from optional_svc_loop_fuel [OF this] V_SVC Cons show ?thesis
      by (auto simp: Let_def split: sum.splits)
  qed
qed

lemma exclude_svc_loop_fuel: "exclude_svc_loop h dv es s \<noteq> Inl OutOfFuel"
  by (induction es arbitrary: s)
     (auto simp: vtx_inst_satisfies_exclusion_def split: sum.splits S16State.splits if_splits)

lemma exclude_all_loop_fuel: "exclude_all_loop h es s \<noteq> Inl OutOfFuel"
  by (induction es arbitrary: s)
     (auto simp: Let_def vtx_inst_satisfies_exclusion_def exclude_svc_loop_fuel
        split: sum.splits S16State.splits if_splits)

lemma depgroup_body_fuel:
  assumes "ranked sat_edges h rk" and "\<forall>x. rk x < rk v \<longrightarrow> f x \<noteq> Inl OutOfFuel"
  shows "depgroup_body f h v r \<noteq> Inl OutOfFuel"
proof (cases "dg_type (h v) = kS16ExcludeAll")
  case True
  then show ?thesis by (simp add: depgroup_body_def exclude_all_loop_fuel)
next
  case False
  then have se: "sat_edges (h v) = dependencies (h v)" by (simp add: sat_edges_def)
  have lt: "rk (edge_to e) < rk v" if "e \<in> set (dependencies (h v))" for e
    using rankedD [OF assms(1), of e v] that se by simp
  have 1: "\<forall>e\<in>set (dependencies (h v)). f (edge_to e) \<noteq> Inl OutOfFuel"
    using assms(2) lt by blast
  have 2: "\<forall>e\<in>set (dependencies (h v)). f (edge_to e) \<noteq> Inl OutOfFuel
       \<and> (vtype (h (edge_to e)) = V_SVC \<longrightarrow>
            (\<forall>e'\<in>set (dependencies (h (edge_to e))). f (edge_to e') \<noteq> Inl OutOfFuel))"
  proof (intro ballI conjI impI)
    fix e assume e: "e \<in> set (dependencies (h v))"
    with 1 show "f (edge_to e) \<noteq> Inl OutOfFuel" by blast
    fix e' assume "vtype (h (edge_to e)) = V_SVC" and "e' \<in> set (dependencies (h (edge_to e)))"
    then have "e' \<in> set (sat_edges (h (edge_to e)))" by (simp add: sat_edges_def)
    from rankedD [OF assms(1) this] lt [OF e] have "rk (edge_to e') < rk v" by simp
    with assms(2) show "f (edge_to e') \<noteq> Inl OutOfFuel" by blast
  qed
  from False show ?thesis
    by (cases "dg_type (h v)")
       (simp_all add: depgroup_body_def require_all_loop_fuel [OF 1] require_any_loop_fuel [OF 1]
          optional_all_loop_fuel [OF 2])
qed

lemma depgroup_is_satisfied_fuel:
  "ranked sat_edges h rk \<Longrightarrow> rk v < n \<Longrightarrow> depgroup_is_satisfied n h r v \<noteq> Inl OutOfFuel"
proof (induction n arbitrary: v)
  case 0
  then show ?case by simp
next
  case (Suc n)
  have "\<forall>x. rk x < rk v \<longrightarrow> depgroup_is_satisfied n h r x \<noteq> Inl OutOfFuel"
    using Suc by auto
  from depgroup_body_fuel [OF Suc.prems(1) this]
  show ?case by (subst depgroup_is_satisfied.simps(2))
qed

lemma can_come_up_fuel:
  "ranked sat_edges h rk \<Longrightarrow> rk v < n \<Longrightarrow> vtx_inst_can_come_up n h v \<noteq> Inl OutOfFuel"
  using depgroup_is_satisfied_fuel [of h rk v n True]
  by (auto simp: vtx_inst_can_come_up_def split: sum.splits)

text \<open>No assertion fails on an \<open>assert_free\<close> graph.\<close>

lemma vtx_inst_satisfies_assert:
  "f v \<noteq> Inl AssertFailed \<Longrightarrow> vtype (h v) = V_INST \<Longrightarrow> vtx_inst_satisfies f h v r \<noteq> Inl AssertFailed"
  by (auto simp: vtx_inst_satisfies_def split: S16State.splits sum.splits)

lemma vtx_inst_satisfies_optional_assert:
  "f v \<noteq> Inl AssertFailed \<Longrightarrow> vtype (h v) = V_INST
     \<Longrightarrow> vtx_inst_satisfies_optional f h v r \<noteq> Inl AssertFailed"
  by (auto simp: vtx_inst_satisfies_optional_def split: S16State.splits sum.splits)

lemma vtx_inst_satisfies_exclusion_assert:
  "vtype (h v) = V_INST \<Longrightarrow> vtx_inst_satisfies_exclusion h v \<noteq> Inl AssertFailed"
  by (auto simp: vtx_inst_satisfies_exclusion_def split: S16State.splits sum.splits)

lemma vtx_satisfies_assert:
  "f v \<noteq> Inl AssertFailed \<Longrightarrow> vtx_satisfies f h v r \<noteq> Inl AssertFailed"
  by (simp add: vtx_satisfies_def vtx_inst_satisfies_assert)

lemma require_all_loop_assert:
  "\<forall>x. f x \<noteq> Inl AssertFailed \<Longrightarrow> require_all_loop f h es r s \<noteq> Inl AssertFailed"
  by (induction es arbitrary: s) (auto split: sum.splits dest: vtx_satisfies_assert)

lemma require_any_loop_assert:
  "\<forall>x. f x \<noteq> Inl AssertFailed \<Longrightarrow> require_any_loop f h es r s \<noteq> Inl AssertFailed"
  by (induction es arbitrary: s) (auto split: sum.splits dest: vtx_satisfies_assert)

lemma optional_svc_loop_assert:
  "\<forall>x. f x \<noteq> Inl AssertFailed \<Longrightarrow> \<forall>e\<in>set es. vtype (h (edge_to e)) = V_INST
     \<Longrightarrow> optional_svc_loop f h es r s \<noteq> Inl AssertFailed"
  by (induction es arbitrary: s)
     (auto simp: Let_def split: sum.splits dest: vtx_inst_satisfies_optional_assert)

lemma optional_all_loop_assert:
  "\<forall>x. f x \<noteq> Inl AssertFailed \<Longrightarrow>
   \<forall>e\<in>set es. vtype (h (edge_to e)) \<noteq> V_DEPGROUP \<and>
      (vtype (h (edge_to e)) = V_SVC \<longrightarrow>
         (\<forall>f\<in>set (dependencies (h (edge_to e))). vtype (h (edge_to f)) = V_INST))
   \<Longrightarrow> optional_all_loop f h es r s \<noteq> Inl AssertFailed"
proof (induction es arbitrary: s)
  case Nil
  then show ?case by simp
next
  case (Cons e es)
  show ?case
  proof (cases "vtype (h (edge_to e))")
    case V_DEPGROUP
    with Cons.prems show ?thesis by simp
  next
    case V_INST
    with Cons show ?thesis
      by (auto simp: Let_def split: sum.splits dest: vtx_inst_satisfies_optional_assert)
  next
    case V_SVC
    with Cons.prems have "\<forall>f\<in>set (dependencies (h (edge_to e))). vtype (h (edge_to f)) = V_INST"
      by simp
    from optional_svc_loop_assert [OF Cons.prems(1) this] V_SVC Cons show ?thesis
      by (auto simp: Let_def split: sum.splits)
  qed
qed

lemma exclude_all_loop_assert:
  "\<forall>e\<in>set es. vtype (h (edge_to e)) \<noteq> V_DEPGROUP \<and>
      (vtype (h (edge_to e)) = V_SVC \<longrightarrow> dependencies (h (edge_to e)) = [])
   \<Longrightarrow> exclude_all_loop h es s \<noteq> Inl AssertFailed"
proof (induction es arbitrary: s)
  case Nil
  then show ?case by simp
next
  case (Cons e es)
  show ?case
  proof (cases "vtype (h (edge_to e))")
    case V_DEPGROUP
    with Cons.prems show ?thesis by simp
  next
    case V_INST
    with Cons show ?thesis
      by (auto simp: Let_def split: sum.splits dest: vtx_inst_satisfies_exclusion_assert)
  next
    case V_SVC
    with Cons show ?thesis by (auto simp: Let_def split: sum.splits)
  qed
qed

lemma depgroup_body_assert:
  assumes "assert_free h" and "\<forall>x. f x \<noteq> Inl AssertFailed"
  shows "depgroup_body f h v r \<noteq> Inl AssertFailed"
proof (cases "dg_type (h v)")
  case kS16RequireAll
  then show ?thesis by (simp add: depgroup_body_def require_all_loop_assert [OF assms(2)])
next
  case kS16RequireAny
  then show ?thesis by (simp add: depgroup_body_def require_any_loop_assert [OF assms(2)])
next
  case kS16OptionalAll
  with assms(1) have "\<forall>e\<in>set (dependencies (h v)). vtype (h (edge_to e)) \<noteq> V_DEPGROUP \<and>
      (vtype (h (edge_to e)) = V_SVC \<longrightarrow>
         (\<forall>f\<in>set (dependencies (h (edge_to e))). vtype (h (edge_to f)) = V_INST))"
    unfolding assert_free_def by blast
  from optional_all_loop_assert [OF assms(2) this] kS16OptionalAll
  show ?thesis by (simp add: depgroup_body_def)
next
  case kS16ExcludeAll
  with assms(1) have "\<forall>e\<in>set (dependencies (h v)). vtype (h (edge_to e)) \<noteq> V_DEPGROUP \<and>
      (vtype (h (edge_to e)) = V_SVC \<longrightarrow> dependencies (h (edge_to e)) = [])"
    unfolding assert_free_def by blast
  from exclude_all_loop_assert [OF this] kS16ExcludeAll
  show ?thesis by (simp add: depgroup_body_def)
qed

lemma depgroup_is_satisfied_assert:
  "assert_free h \<Longrightarrow> depgroup_is_satisfied n h r v \<noteq> Inl AssertFailed"
proof (induction n arbitrary: v)
  case 0
  then show ?case by simp
next
  case (Suc n)
  then have "\<forall>x. depgroup_is_satisfied n h r x \<noteq> Inl AssertFailed" by blast
  from depgroup_body_assert [OF Suc.prems this]
  show ?case by (subst depgroup_is_satisfied.simps(2))
qed

lemma can_come_up_assert:
  "assert_free h \<Longrightarrow> vtx_inst_can_come_up n h v \<noteq> Inl AssertFailed"
  using depgroup_is_satisfied_assert [of h n True v]
  by (auto simp: vtx_inst_can_come_up_def split: sum.splits)

lemma can_come_up_returns:
  "assert_free h \<Longrightarrow> ranked sat_edges h rk \<Longrightarrow> rk v < n
     \<Longrightarrow> \<exists>b. vtx_inst_can_come_up n h v = Inr b"
  using can_come_up_assert [of h n v] can_come_up_fuel [of h rk v n]
  by (cases "vtx_inst_can_come_up n h v") (auto intro: error.exhaust)

subsection \<open>Start notifications and the walk over the dependencies\<close>

lemma reaches_inst_INST: "vtype (h v) = V_INST \<Longrightarrow> reaches_inst sel h v d \<longleftrightarrow> d = v"
  by (auto elim: reaches_inst.cases intro: reaches_here)

lemma reaches_inst_other:
  "vtype (h v) \<noteq> V_INST \<Longrightarrow>
   reaches_inst sel h v d \<longleftrightarrow> (\<exists>e\<in>set (sel (h v)). reaches_inst sel h (edge_to e) d)"
  by (auto elim: reaches_inst.cases intro: reaches_through)





lemma result_cases:
  fixes x :: "error + 'a"
  assumes "x \<noteq> Inl OutOfFuel" "x \<noteq> Inl AssertFailed"
  obtains y where "x = Inr y"
  using assms by (cases x) (auto intro: error.exhaust)



lemma acyclic_waiting_graph: "acyclic_graph waiting_graph down_rank up_rank 3"
  by (auto simp: acyclic_graph_def ranked_def waiting_graph_def example_vertex_defs
        up_rank_def down_rank_def)



lemma offline_dependency_notes:
  shows "vtx_offline_dependency n h v r q = Inr ns \<Longrightarrow> n \<le> m
           \<Longrightarrow> \<exists>new. ns = q @ new \<and> set new = walk_notes m h r v"
    and "offline_dependency_loop n h es r q = Inr ns \<Longrightarrow> n \<le> m
           \<Longrightarrow> \<exists>new. ns = q @ new \<and> set new = (\<Union>e\<in>set es. walk_notes m h r (edge_to e))"
proof (induction n h v r q and n h es r q arbitrary: ns and ns
    rule: vtx_offline_dependency_offline_dependency_loop.induct)
  case (1 h v r q)
  then show ?case by simp
next
  case (2 n h v r q)
  show ?case
  proof (cases "vtype (h v) = V_INST")
    case True
    show ?thesis
    proof (cases "to_offline (h v)")
      case False
      with True "2.prems" have "ns = q" by simp
      moreover from True False have "walk_notes m h r v = {}"
        by (auto simp: walk_notes_def reaches_inst_INST)
      ultimately show ?thesis by simp
    next
      case to: True
      with True "2.prems" obtain down where down: "vtx_can_go_down (Suc n) h v True = Inr down"
        and ns: "ns = (if down then q @ [s16note_new N_STATE_CHANGE SC_OFFLINE (path (h v)) r] else q)"
        by (auto simp: vtx_offline_def simp del: vtx_can_go_down.simps split: sum.splits if_splits)
      from can_go_down_mono [OF down "2.prems"(2)] have "vtx_can_go_down m h v True = Inr down" .
      with True to have "walk_notes m h r v =
          (if down then {s16note_new N_STATE_CHANGE SC_OFFLINE (path (h v)) r} else {})"
        by (auto simp: walk_notes_def reaches_inst_INST)
      with ns show ?thesis by auto
    qed
  next
    case False
    with "2.prems" have l: "offline_dependency_loop n h (dependencies (h v)) r q = Inr ns"
      by simp
    from "2.prems"(2) have nm: "n \<le> m" by simp
    from "2.IH" [OF _ False l nm] False
    have "\<exists>new. ns = q @ new \<and> set new = (\<Union>e\<in>set (dependencies (h v)). walk_notes m h r (edge_to e))"
      by simp
    moreover have "walk_notes m h r v = (\<Union>e\<in>set (dependencies (h v)). walk_notes m h r (edge_to e))"
      using False by (auto simp: walk_notes_def reaches_inst_other [of h v dependencies])
    ultimately show ?thesis by simp
  qed
next
  case (3 n h r q)
  then show ?case by simp
next
  case (4 n h it rest r q)
  from "4.prems" obtain ns1 where
    a: "vtx_offline_dependency n h (edge_to it) r q = Inr ns1" and
    l: "offline_dependency_loop n h rest r ns1 = Inr ns"
    by (auto split: sum.splits)
  from "4.IH"(1) [OF a "4.prems"(2)] "4.IH"(2) [OF a l "4.prems"(2)] show ?case by auto
qed

lemma offline_dependency_ends:
  shows "ranked walk_edges h rd \<Longrightarrow> ranked (down_edges h) h ru \<Longrightarrow> \<forall>x. ru x < N
           \<Longrightarrow> rd v + N \<le> n \<Longrightarrow> \<exists>ns. vtx_offline_dependency n h v r q = Inr ns"
    and "ranked walk_edges h rd \<Longrightarrow> ranked (down_edges h) h ru \<Longrightarrow> \<forall>x. ru x < N
           \<Longrightarrow> \<forall>e\<in>set es. rd (edge_to e) + N \<le> n
           \<Longrightarrow> \<exists>ns. offline_dependency_loop n h es r q = Inr ns"
proof (induction n h v r q and n h es r q
    rule: vtx_offline_dependency_offline_dependency_loop.induct)
  case (1 h v r q)
  then have "ru v < 0" by simp
  then show ?case by simp
next
  case (2 n h v r q)
  from "2.prems" have "ru v < Suc n"
    by (metis add_leD2 less_le_trans)
  from can_go_down_ends [OF "2.prems"(2) this]
  obtain b where c: "vtx_can_go_down (Suc n) h v True = Inr b" by blast
  show ?case
  proof (cases "vtype (h v) = V_INST")
    case True
    with c show ?thesis by (simp del: vtx_can_go_down.simps)
  next
    case False
    then have we: "walk_edges (h v) = dependencies (h v)" by (simp add: walk_edges_def)
    have d: "\<forall>e\<in>set (dependencies (h v)). rd (edge_to e) + N \<le> n"
    proof
      fix e assume "e \<in> set (dependencies (h v))"
      with we have "e \<in> set (walk_edges (h v))" by simp
      from rankedD [OF "2.prems"(1) this] "2.prems"(4) show "rd (edge_to e) + N \<le> n" by simp
    qed
    from "2.IH" [OF _ False "2.prems"(1,2,3) d] False show ?thesis by simp
  qed
next
  case (3 n h r q)
  then show ?case by simp
next
  case (4 n h it rest r q)
  from "4.IH"(1) "4.prems" obtain ns1 where
    a: "vtx_offline_dependency n h (edge_to it) r q = Inr ns1" by auto
  from "4.IH"(2) [OF a] "4.prems" obtain ns2 where
    "offline_dependency_loop n h rest r ns1 = Inr ns2" by auto
  with a show ?case by (simp del: vtx_offline_dependency.simps)
qed

subsection \<open>The SC_OFFLINE handler\<close>

lemma fields_offline:
  "dependencies ((h(v := (h v)\<lparr>state := s, to_offline := b\<rparr>)) x) = dependencies (h x)"
  "dependents ((h(v := (h v)\<lparr>state := s, to_offline := b\<rparr>)) x) = dependents (h x)"
  "vtype ((h(v := (h v)\<lparr>state := s, to_offline := b\<rparr>)) x) = vtype (h x)"
  "dg_type ((h(v := (h v)\<lparr>state := s, to_offline := b\<rparr>)) x) = dg_type (h x)"
  "restart_on ((h(v := (h v)\<lparr>state := s, to_offline := b\<rparr>)) x) = restart_on (h x)"
  by simp_all

lemma assert_free_offline:
  "assert_free (h(v := (h v)\<lparr>state := s, to_offline := b\<rparr>)) = assert_free h"
  by (simp only: assert_free_def fields_offline)

lemma down_edges_offline:
  "set (down_edges (h(v := (h v)\<lparr>state := s, to_offline := False\<rparr>))
          ((h(v := (h v)\<lparr>state := s, to_offline := False\<rparr>)) x))
     \<subseteq> set (down_edges h (h x))"
  by (auto simp: down_edges_def)

text \<open>The walks end on the store that the handler has updated, too.\<close>

lemma walks_end_offline:
  assumes "walks_end h r rs ru rw rd N"
  shows "walks_end (h(v := (h v)\<lparr>state := s, to_offline := False\<rparr>)) r rs ru rw rd N"
proof -
  let ?h = "h(v := (h v)\<lparr>state := s, to_offline := False\<rparr>)"
  have 1: "stop_edges r (?h x) = stop_edges r (h x)" for x
    by (simp only: stop_edges_def fields_offline)
  have 2: "walk_edges (?h x) = walk_edges (h x)" for x
    by (simp only: walk_edges_def fields_offline)
  have 3: "sat_edges (?h x) = sat_edges (h x)" for x
    by (simp only: sat_edges_def fields_offline)
  have 4: "ranked (down_edges ?h) ?h ru" if "ranked (down_edges h) h ru"
    unfolding ranked_def
  proof (intro allI ballI)
    fix x e assume "e \<in> set (down_edges ?h (?h x))"
    with down_edges_offline [of h v s x] have "e \<in> set (down_edges h (h x))" by blast
    from rankedD [OF that this] show "ru (edge_to e) < ru x" .
  qed
  from assms 4 show ?thesis
    by (simp only: walks_end_def ranked_def 1 2 3) blast
qed

lemma walks_endD:
  assumes "walks_end h r rs ru rw rd N"
  shows "ranked (stop_edges r) h rs" "ranked (down_edges h) h ru" "ranked walk_edges h rw"
    "ranked sat_edges h rd" "rs x < N" "ru x < N" "rw x < N" "rd x < N"
  using assms by (auto simp: walks_end_def)

lemma acyclic_walks_end: "acyclic_graph h rd ru N \<Longrightarrow> walks_end h r ru ru rd rd N"
  by (simp add: acyclic_graph_def walks_end_def ranked_stop_edges ranked_down_edges
        ranked_walk_edges ranked_sat_edges)

lemma sc_offline_unfold:
  "vtx_process_state_change n h q v SC_OFFLINE r =
     (let h1 = h(v := (h v)\<lparr>state := kS16StateOffline, to_offline := False\<rparr>) in
      case (if to_offline (h v) then
              (case offline_dependency_loop n h1 (dependencies (h v)) r q of
                 Inl e \<Rightarrow> Inl e
               | Inr notes1 \<Rightarrow>
                   Inr (if to_disable (h v)
                        then notes1 @ [s16note_new N_STATE_CHANGE SC_DISABLED (path (h v)) r]
                        else notes1))
            else
              (case vtx_inst_can_come_up n h1 v of
                 Inl e \<Rightarrow> Inl e
               | Inr up \<Rightarrow> Inr (if up then q @ [s16note_new N_STATE_CHANGE SC_ONLINE (path (h v)) r]
                                else q))) of
        Inl e \<Rightarrow> Inl e
      | Inr notes2 \<Rightarrow>
          (case notify_stop_loop n h1 (dependents (h v)) r notes2 of
             Inl e \<Rightarrow> Inl e
           | Inr notes3 \<Rightarrow> Inr (h1, notes3)))"
  by (auto simp: vtx_process_state_change_def Let_def vtx_disable_def vtx_online_def
        split: sum.splits)

subsection \<open>Walks that do not end\<close>

lemma marked_cycle_never_goes_down:
  fixes g :: vertex_store
  assumes g: "g = marked_exclusion_graph
                    (4 := (marked_exclusion_graph 4)\<lparr>state := kS16StateOffline, to_offline := False\<rparr>)"
  shows "vtx_can_go_down n g 0 root = Inl OutOfFuel \<and> vtx_can_go_down n g 3 root = Inl OutOfFuel
       \<and> vtx_can_go_down n g 2 root = Inl OutOfFuel \<and> vtx_can_go_down n g 1 root = Inl OutOfFuel"
proof (induction n arbitrary: root)
  case 0
  show ?case by simp
next
  case (Suc n)
  have f: "dependents (g 0) = [Edge 0 3, Edge 0 5]" "dependents (g 3) = [Edge 3 2]"
    "dependents (g 2) = [Edge 2 1]" "dependents (g 1) = [Edge 1 0]"
    "vtype (g 3) = V_DEPGROUP" "vtype (g 1) = V_DEPGROUP"
    "to_offline (g 2)" "to_offline (g 0)"
    by (simp_all add: g marked_exclusion_graph_def mutual_exclusion_graph_def example_vertex_defs)
  from Suc [of False] f show ?case by simp
qed

lemma marked_exclusion_never_returns:
  "vtx_process_state_change n marked_exclusion_graph q 4 SC_OFFLINE r = Inl OutOfFuel"
proof -
  define g where "g = marked_exclusion_graph
      (4 := (marked_exclusion_graph 4)\<lparr>state := kS16StateOffline, to_offline := False\<rparr>)"
  have f: "to_offline (marked_exclusion_graph 4)"
    "dependencies (marked_exclusion_graph 4) = [Edge 4 5]"
    "vtype (g 5) = V_DEPGROUP" "dependencies (g 5) = [Edge 5 0]"
    "vtype (g 0) = V_INST" "to_offline (g 0)"
    by (simp_all add: g_def marked_exclusion_graph_def mutual_exclusion_graph_def
          example_vertex_defs)
  note c = marked_cycle_never_goes_down [OF g_def, THEN conjunct1]
  have 0: "vtx_offline_dependency m g 0 r q = Inl OutOfFuel" for m
    using c [of m True] f(5,6) by (cases m) (simp_all del: vtx_can_go_down.simps)
  have 5: "vtx_offline_dependency m g 5 r q = Inl OutOfFuel" for m
    using 0 f(3,4) by (cases m) simp_all
  have "offline_dependency_loop n g [Edge 4 5] r q = Inl OutOfFuel"
    using 5 [of n] by (simp del: vtx_offline_dependency.simps)
  with f(1,2) show ?thesis
    by (simp add: sc_offline_unfold [of n marked_exclusion_graph q 4 r, unfolded Let_def,
          folded g_def])
qed

text \<open>In a RequireAll loop without failing assertion, one target that never returns
  makes the loop never return.\<close>

lemma require_all_loop_out_of_fuel:
  "e \<in> set es \<Longrightarrow> vtx_satisfies f h (edge_to e) rc = Inl OutOfFuel
   \<Longrightarrow> \<forall>a\<in>set es. vtx_satisfies f h (edge_to a) rc \<noteq> Inl AssertFailed
   \<Longrightarrow> require_all_loop f h es rc s = Inl OutOfFuel"
proof (induction es arbitrary: s)
  case Nil
  then show ?case by simp
next
  case (Cons a es)
  show ?case
  proof (cases "vtx_satisfies f h (edge_to a) rc")
    case (Inl err)
    with Cons.prems(3) have "err = OutOfFuel" by (cases err) auto
    with Inl show ?thesis by simp
  next
    case (Inr y)
    with Cons.prems(1,2) have "e \<in> set es" by auto
    from Cons.IH [OF this Cons.prems(2)] Cons.prems(3) Inr show ?thesis by simp
  qed
qed

lemma cycle_graph_never_satisfied:
  fixes g :: vertex_store
  assumes g: "g = cycle_graph(4 := (cycle_graph 4)\<lparr>state := kS16StateOffline, to_offline := False\<rparr>)"
  shows "depgroup_is_satisfied n g True 4 = Inl OutOfFuel
       \<and> depgroup_is_satisfied n g True 5 = Inl OutOfFuel
       \<and> depgroup_is_satisfied n g True 0 = Inl OutOfFuel
       \<and> depgroup_is_satisfied n g True 2 = Inl OutOfFuel"
proof (induction n)
  case 0
  show ?case by simp
next
  case (Suc n)
  let ?f = "depgroup_is_satisfied n g True"
  have rq: "dg_type (g x) = kS16RequireAll" for x
    by (simp add: g cycle_graph_def vtx_edge_add_def shared_target_graph_def example_vertex_defs)
  then have af: "assert_free g" by (simp add: assert_free_def)
  have na: "vtx_satisfies ?f g x True \<noteq> Inl AssertFailed" for x
    by (rule vtx_satisfies_assert) (rule depgroup_is_satisfied_assert [OF af])
  have d: "dependencies (g 4) = [Edge 4 5]" "dependencies (g 5) = [Edge 5 0]"
    "dependencies (g 0) = [Edge 0 1, Edge 0 2]" "dependencies (g 2) = [Edge 2 3, Edge 2 4]"
    by (simp_all add: g cycle_graph_def vtx_edge_add_def shared_target_graph_def
          example_vertex_defs)
  have t: "vtype (g 5) = V_DEPGROUP" "vtype (g 2) = V_DEPGROUP"
    "vtype (g 0) = V_INST" "is_setup (g 0)" "is_enabled (g 0)" "state (g 0) = kS16StateOffline"
    "vtype (g 4) = V_INST" "is_setup (g 4)" "is_enabled (g 4)" "state (g 4) = kS16StateOffline"
    by (simp_all add: g cycle_graph_def vtx_edge_add_def shared_target_graph_def
          example_vertex_defs)
  have s: "vtx_satisfies ?f g 5 True = Inl OutOfFuel" "vtx_satisfies ?f g 0 True = Inl OutOfFuel"
    "vtx_satisfies ?f g 2 True = Inl OutOfFuel" "vtx_satisfies ?f g 4 True = Inl OutOfFuel"
    using Suc t by (simp_all add: vtx_satisfies_def vtx_inst_satisfies_def)
  have body: "depgroup_is_satisfied (Suc n) g True x
      = require_all_loop ?f g (dependencies (g x)) True SATISFIED" for x
    by (subst depgroup_is_satisfied.simps(2)) (simp add: depgroup_body_def rq)
  have 4: "depgroup_is_satisfied (Suc n) g True 4 = Inl OutOfFuel"
    unfolding body d using s(1) na
    by (intro require_all_loop_out_of_fuel [of "Edge 4 5"]) simp_all
  have 5: "depgroup_is_satisfied (Suc n) g True 5 = Inl OutOfFuel"
    unfolding body d using s(2) na
    by (intro require_all_loop_out_of_fuel [of "Edge 5 0"]) simp_all
  have 0: "depgroup_is_satisfied (Suc n) g True 0 = Inl OutOfFuel"
    unfolding body d using s(3) na
    by (intro require_all_loop_out_of_fuel [of "Edge 0 2"]) simp_all
  have 2: "depgroup_is_satisfied (Suc n) g True 2 = Inl OutOfFuel"
    unfolding body d using s(4) na
    by (intro require_all_loop_out_of_fuel [of "Edge 2 4"]) simp_all
  from 4 5 0 2 show ?case by blast
qed

lemma cycle_graph_never_returns:
  "vtx_process_state_change n cycle_graph q 4 SC_OFFLINE r = Inl OutOfFuel"
proof -
  define g where "g = cycle_graph(4 := (cycle_graph 4)\<lparr>state := kS16StateOffline, to_offline := False\<rparr>)"
  have f: "\<not> to_offline (cycle_graph 4)" "is_enabled (g 4)" "\<not> to_offline (g 4)" "\<not> to_disable (g 4)"
    by (simp_all add: g_def cycle_graph_def vtx_edge_add_def shared_target_graph_def
          example_vertex_defs)
  from cycle_graph_never_satisfied [OF g_def, of n] f(2-4)
  have "vtx_inst_can_come_up n g 4 = Inl OutOfFuel"
    by (simp add: vtx_inst_can_come_up_def)
  with f(1) show ?thesis
    by (simp add: sc_offline_unfold [of n cycle_graph q 4 r, unfolded Let_def, folded g_def])
qed

text \<open>The cycle check admits the two instances that exclude each other: the last
  edge of \<open>mutual_exclusion_graph\<close>, from the group of a:i to b:j, is added although b:j
  reaches that group, because the search stops at the ExcludeAll group of b:j.\<close>

lemma mutual_exclusion_admitted:
  "vtx_dependency_add 6
     (mutual_exclusion_graph
        (1 := (mutual_exclusion_graph 1)\<lparr>dependencies := []\<rparr>,
         2 := (mutual_exclusion_graph 2)\<lparr>dependents := []\<rparr>)) 1 2 []
   = Inr (0, mutual_exclusion_graph, [])"
proof -
  have "vtx_edge_add
     (mutual_exclusion_graph
        (1 := (mutual_exclusion_graph 1)\<lparr>dependencies := []\<rparr>,
         2 := (mutual_exclusion_graph 2)\<lparr>dependents := []\<rparr>)) 1 2 = mutual_exclusion_graph"
    by (rule ext) (simp add: vtx_edge_add_def mutual_exclusion_graph_def example_vertex_defs)
  then show ?thesis
    by (simp add: vtx_dependency_add_def vtx_is_reachable_def eval_nat_numeral)
       (simp add: mutual_exclusion_graph_def example_vertex_defs)
qed

text \<open>
  C3, as stated, fails: the handler does not return when one of its walks runs into a
  cycle, and then it emits nothing. On \<open>marked_exclusion_graph\<close>, a graph that the cycle
  check admits, c:k is pending offline and to be disabled; the walk over its
  dependencies asks whether a:i can go down, and \<^verbatim>\<open>vtx_can_go_down\<close> goes round the cycle
  of the two instances that exclude each other: at no budget is there a result
  (\<open>marked_exclusion_never_returns\<close>), so no SC_DISABLED is emitted. On \<open>cycle_graph\<close>, the
  graph that \<^verbatim>\<open>vtx_dependency_add\<close> builds, y:j is not pending offline, and
  \<^verbatim>\<open>vtx_inst_can_come_up\<close> goes round the cycle of dependencies
  (\<open>cycle_graph_never_returns\<close>).
\<close>

theorem C3_counterexample:
  "vtx_dependency_add 6
     (mutual_exclusion_graph
        (1 := (mutual_exclusion_graph 1)\<lparr>dependencies := []\<rparr>,
         2 := (mutual_exclusion_graph 2)\<lparr>dependents := []\<rparr>)) 1 2 []
     = Inr (0, mutual_exclusion_graph, [])
   \<and> to_offline (marked_exclusion_graph 4) \<and> to_disable (marked_exclusion_graph 4)
   \<and> vtx_process_state_change 1000 marked_exclusion_graph [] 4 SC_OFFLINE 2 = Inl OutOfFuel
   \<and> vtx_dependency_add 6 shared_target_graph 5 0 [] = Inr (0, cycle_graph, [])
   \<and> \<not> to_offline (cycle_graph 4) \<and> is_enabled (cycle_graph 4)
   \<and> vtx_process_state_change 1000 cycle_graph [] 4 SC_OFFLINE 0 = Inl OutOfFuel"
proof -
  have "to_offline (marked_exclusion_graph 4)" "to_disable (marked_exclusion_graph 4)"
    by (simp_all add: marked_exclusion_graph_def)
  moreover have "vtx_dependency_add 6 shared_target_graph 5 0 [] = Inr (0, cycle_graph, [])"
    by (simp add: cycle_graph_def shared_target_graph_def example_vertex_defs
          vtx_dependency_add_def vtx_is_reachable_def vtx_edge_add_def eval_nat_numeral)
  moreover have "\<not> to_offline (cycle_graph 4)" "is_enabled (cycle_graph 4)"
    by (simp_all add: cycle_graph_def vtx_edge_add_def shared_target_graph_def example_vertex_defs)
  ultimately show ?thesis
    using marked_exclusion_never_returns [of 1000 "[]" 2] cycle_graph_never_returns [of 1000 "[]" 0]
      mutual_exclusion_admitted
    by (intro conjI)
qed

subsection \<open>The handler on graphs whose walks end\<close>

text \<open>
  C3, amended: processing SC_OFFLINE(v, r). The vertex \<open>v\<close> is put in state Offline with
  \<open>to_offline\<close> cleared, and whenever the handler returns, nothing else in the graph
  has changed (\<open>h1\<close>) and the notes appended are these. If \<open>to_offline\<close> was set before:
  the SC_OFFLINE notes \<open>walk\<close> of exactly those Instances reached by walking the
  dependencies of \<open>v\<close> that are themselves pending offline and can go down (asked as
  root), then SC_DISABLED for \<open>v\<close> when \<open>to_disable\<close> is set, then the stop notifications
  of the dependents. If \<open>to_offline\<close> was not set: SC_ONLINE for \<open>v\<close> when
  \<open>vtx_inst_can_come_up\<close> is true of the updated vertex, then the stop notifications; a
  failed assertion in \<open>vtx_inst_can_come_up\<close> aborts the handler. The handler does not
  run forever on a graph on which its four walks end (\<open>walks_end\<close>): there it returns,
  unless that assertion fails, which no \<open>assert_free\<close> graph lets happen.
\<close>

theorem C3_sc_offline:
  "let h1 = h(v := (h v)\<lparr>state := kS16StateOffline, to_offline := False\<rparr>);
       dis = (if to_disable (h v)
              then [s16note_new N_STATE_CHANGE SC_DISABLED (path (h v)) r] else []);
       on = (\<lambda>up. if up then [s16note_new N_STATE_CHANGE SC_ONLINE (path (h v)) r] else [])
   in state (h1 v) = kS16StateOffline \<and> \<not> to_offline (h1 v)
    \<and> (\<forall>h' ns. vtx_process_state_change n h q v SC_OFFLINE r = Inr (h', ns) \<longrightarrow>
          h' = h1
          \<and> (to_offline (h v) \<longrightarrow>
               (\<exists>walk stop. ns = q @ walk @ dis @ stop
                  \<and> set walk = (\<Union>e\<in>set (dependencies (h v)). walk_notes n h1 r (edge_to e))
                  \<and> notify_stop_loop n h1 (dependents (h v)) r (q @ walk @ dis) = Inr ns))
          \<and> (\<not> to_offline (h v) \<longrightarrow>
               (\<exists>up stop. vtx_inst_can_come_up n h1 v = Inr up \<and> ns = q @ on up @ stop
                  \<and> notify_stop_loop n h1 (dependents (h v)) r (q @ on up) = Inr ns)))
    \<and> (\<forall>e. \<not> to_offline (h v) \<and> vtx_inst_can_come_up n h1 v = Inl e \<longrightarrow>
          vtx_process_state_change n h q v SC_OFFLINE r = Inl e)
    \<and> (walks_end h r rs ru rw rd N \<and> 2 * N \<le> n \<longrightarrow>
          vtx_process_state_change n h q v SC_OFFLINE r \<noteq> Inl OutOfFuel
          \<and> vtx_inst_can_come_up n h1 v \<noteq> Inl OutOfFuel
          \<and> (assert_free h \<longrightarrow> (\<exists>up. vtx_inst_can_come_up n h1 v = Inr up))
          \<and> (to_offline (h v) \<or> (\<exists>up. vtx_inst_can_come_up n h1 v = Inr up) \<longrightarrow>
               (\<exists>ns. vtx_process_state_change n h q v SC_OFFLINE r = Inr (h1, ns))))"
proof -
  define h1 where "h1 = h(v := (h v)\<lparr>state := kS16StateOffline, to_offline := False\<rparr>)"
  define dis where "dis = (if to_disable (h v)
                    then [s16note_new N_STATE_CHANGE SC_DISABLED (path (h v)) r] else [])"
  define on where "on = (\<lambda>up. if up then [s16note_new N_STATE_CHANGE SC_ONLINE (path (h v)) r]
                               else [])"
  note unf = sc_offline_unfold [of n h q v r, unfolded Let_def, folded h1_def]
  have st: "state (h1 v) = kS16StateOffline" "\<not> to_offline (h1 v)"
    by (simp_all add: h1_def)
  have A: "h' = h1
        \<and> (to_offline (h v) \<longrightarrow>
             (\<exists>walk stop. ns = q @ walk @ dis @ stop
                \<and> set walk = (\<Union>e\<in>set (dependencies (h v)). walk_notes n h1 r (edge_to e))
                \<and> notify_stop_loop n h1 (dependents (h v)) r (q @ walk @ dis) = Inr ns))
        \<and> (\<not> to_offline (h v) \<longrightarrow>
             (\<exists>up stop. vtx_inst_can_come_up n h1 v = Inr up \<and> ns = q @ on up @ stop
                \<and> notify_stop_loop n h1 (dependents (h v)) r (q @ on up) = Inr ns))"
    if res: "vtx_process_state_change n h q v SC_OFFLINE r = Inr (h', ns)" for h' ns
  proof (cases "to_offline (h v)")
    case True
    from res True obtain ns1 where
      ns1: "offline_dependency_loop n h1 (dependencies (h v)) r q = Inr ns1"
      by (cases "offline_dependency_loop n h1 (dependencies (h v)) r q") (simp_all add: unf)
    have d: "(if to_disable (h v)
              then ns1 @ [s16note_new N_STATE_CHANGE SC_DISABLED (path (h v)) r] else ns1)
             = ns1 @ dis"
      by (simp add: dis_def)
    from res True ns1 have
      stop: "notify_stop_loop n h1 (dependents (h v)) r (ns1 @ dis) = Inr ns" and
      h': "h' = h1"
      by (cases "notify_stop_loop n h1 (dependents (h v)) r (ns1 @ dis)";
          simp add: unf d del: notify_stop_loop.simps)+
    from offline_dependency_notes(2) [OF ns1 le_refl] obtain walk where
      walk: "ns1 = q @ walk"
        "set walk = (\<Union>e\<in>set (dependencies (h v)). walk_notes n h1 r (edge_to e))"
      by blast
    from notify_stop_appends(2) [OF stop] obtain stop' where "ns = (ns1 @ dis) @ stop'" by blast
    with walk stop h' True show ?thesis by auto
  next
    case False
    from res False obtain up where
      up: "vtx_inst_can_come_up n h1 v = Inr up"
      by (cases "vtx_inst_can_come_up n h1 v") (simp_all add: unf)
    have o: "(if up then q @ [s16note_new N_STATE_CHANGE SC_ONLINE (path (h v)) r] else q)
             = q @ on up"
      by (simp add: on_def)
    from res False up have
      stop: "notify_stop_loop n h1 (dependents (h v)) r (q @ on up) = Inr ns" and
      h': "h' = h1"
      by (cases "notify_stop_loop n h1 (dependents (h v)) r (q @ on up)";
          simp add: unf o del: notify_stop_loop.simps)+
    from notify_stop_appends(2) [OF stop] obtain stop' where "ns = (q @ on up) @ stop'" by blast
    with up stop h' False show ?thesis by auto
  qed
  have B: "vtx_process_state_change n h q v SC_OFFLINE r = Inl e"
    if "\<not> to_offline (h v) \<and> vtx_inst_can_come_up n h1 v = Inl e" for e
    using that by (simp add: unf)
  have C: "vtx_process_state_change n h q v SC_OFFLINE r \<noteq> Inl OutOfFuel
        \<and> vtx_inst_can_come_up n h1 v \<noteq> Inl OutOfFuel
        \<and> (assert_free h \<longrightarrow> (\<exists>up. vtx_inst_can_come_up n h1 v = Inr up))
        \<and> (to_offline (h v) \<or> (\<exists>up. vtx_inst_can_come_up n h1 v = Inr up) \<longrightarrow>
             (\<exists>ns. vtx_process_state_change n h q v SC_OFFLINE r = Inr (h1, ns)))"
    if w: "walks_end h r rs ru rw rd N \<and> 2 * N \<le> n"
  proof -
    from w have we: "walks_end h1 r rs ru rw rd N" and n: "2 * N \<le> n"
      by (simp_all add: h1_def walks_end_offline)
    note a = walks_endD [OF we]
    have stop_total: "\<exists>ns. notify_stop_loop n h1 (dependents (h v)) r pre = Inr ns" for pre
    proof -
      have "rs x < n" for x using a(5) [of x] n by simp
      then have "\<forall>e\<in>set (dependents (h v)). rs (edge_to e) < n" by blast
      from notify_stop_ends(2) [OF a(1) this] show ?thesis .
    qed
    have walk_total: "\<exists>ns. offline_dependency_loop n h1 (dependencies (h v)) r q = Inr ns"
    proof -
      have "rw x + N \<le> n" for x using a(7) [of x] n by simp
      then have "\<forall>e\<in>set (dependencies (h v)). rw (edge_to e) + N \<le> n" by blast
      moreover have "\<forall>x. ru x < N" using a(6) by blast
      ultimately show ?thesis using offline_dependency_ends(2) [OF a(3) a(2)] by blast
    qed
    have "rd v < n" using a(8) [of v] n by simp
    from can_come_up_fuel [OF a(4) this]
    have up_fuel: "vtx_inst_can_come_up n h1 v \<noteq> Inl OutOfFuel" .
    have up_ret: "\<exists>up. vtx_inst_can_come_up n h1 v = Inr up" if "assert_free h"
    proof -
      from that have "assert_free h1" by (simp add: h1_def assert_free_offline)
      from up_fuel can_come_up_assert [OF this, of n v] show ?thesis
        by (rule result_cases) blast
    qed
    have ret: "\<exists>ns. vtx_process_state_change n h q v SC_OFFLINE r = Inr (h1, ns)"
      if "to_offline (h v) \<or> (\<exists>up. vtx_inst_can_come_up n h1 v = Inr up)"
    proof (cases "to_offline (h v)")
      case True
      from walk_total obtain ns1 where
        ns1: "offline_dependency_loop n h1 (dependencies (h v)) r q = Inr ns1" by blast
      from stop_total [of "ns1 @ dis"] obtain ns where
        "notify_stop_loop n h1 (dependents (h v)) r (ns1 @ dis) = Inr ns" by blast
      moreover have "(if to_disable (h v)
              then ns1 @ [s16note_new N_STATE_CHANGE SC_DISABLED (path (h v)) r] else ns1)
             = ns1 @ dis"
        by (simp add: dis_def)
      ultimately show ?thesis using True ns1 by (simp add: unf del: notify_stop_loop.simps)
    next
      case False
      with that obtain up where up: "vtx_inst_can_come_up n h1 v = Inr up" by blast
      from stop_total [of "q @ on up"] obtain ns where
        "notify_stop_loop n h1 (dependents (h v)) r (q @ on up) = Inr ns" by blast
      moreover have "(if up then q @ [s16note_new N_STATE_CHANGE SC_ONLINE (path (h v)) r] else q)
             = q @ on up"
        by (simp add: on_def)
      ultimately show ?thesis using False up by (simp add: unf del: notify_stop_loop.simps)
    qed
    have fuel: "vtx_process_state_change n h q v SC_OFFLINE r \<noteq> Inl OutOfFuel"
    proof (cases "to_offline (h v) \<or> (\<exists>up. vtx_inst_can_come_up n h1 v = Inr up)")
      case True
      from ret [OF this] show ?thesis by auto
    next
      case False
      then obtain e where e: "vtx_inst_can_come_up n h1 v = Inl e" and "\<not> to_offline (h v)"
        by (cases "vtx_inst_can_come_up n h1 v") auto
      with B [of e] up_fuel show ?thesis by auto
    qed
    from fuel up_fuel up_ret ret show ?thesis by blast
  qed
  from st A B C show ?thesis
    unfolding Let_def h1_def [symmetric] dis_def [symmetric] on_def [symmetric] by blast
qed

lemma acyclic_pending_offline_graph: "acyclic_graph pending_offline_graph down_rank up_rank 3"
  by (auto simp: acyclic_graph_def ranked_def pending_offline_graph_def example_vertex_defs
        up_rank_def down_rank_def)

lemma acyclic_excluding_graph:
  "acyclic_graph excluding_graph chain_down_rank chain_up_rank 4"
  by (auto simp: acyclic_graph_def ranked_def excluding_graph_def exclude_graph_def
        example_vertex_defs chain_up_rank_def chain_down_rank_def)

lemma walks_end_mutual_exclusion_graph:
  "walks_end mutual_exclusion_graph 2 mutual_stop_rank mutual_down_rank mutual_walk_rank
     mutual_sat_rank 4"
  by (auto simp: walks_end_def ranked_def stop_edges_def down_edges_def walk_edges_def
        sat_edges_def mutual_exclusion_graph_def example_vertex_defs reason_of_extra_def
        mutual_stop_rank_def mutual_down_rank_def mutual_walk_rank_def mutual_sat_rank_def
      split: if_splits)

lemma assert_free_mutual_exclusion_graph: "assert_free mutual_exclusion_graph"
  by (auto simp: assert_free_def mutual_exclusion_graph_def example_vertex_defs split: if_splits)

theorem C3_sc_offline_witness:
  "walks_end pending_offline_graph 2 up_rank up_rank down_rank down_rank 3 \<and> 2 * 3 \<le> (6::nat)
   \<and> to_offline (pending_offline_graph 1)
   \<and> vtx_process_state_change 6 pending_offline_graph [] 1 SC_OFFLINE 2
       = Inr (pending_offline_graph
                (1 := (pending_offline_graph 1)\<lparr>state := kS16StateOffline, to_offline := False\<rparr>),
              [s16note_new N_STATE_CHANGE SC_OFFLINE \<lparr>svc = ''b'', inst = Some ''j''\<rparr> 2])
   \<and> (\<exists>walk stop.
         [s16note_new N_STATE_CHANGE SC_OFFLINE \<lparr>svc = ''b'', inst = Some ''j''\<rparr> 2]
           = [] @ walk @ [] @ stop
         \<and> set walk = (\<Union>e\<in>set (dependencies (pending_offline_graph 1)).
               walk_notes 6 (pending_offline_graph
                 (1 := (pending_offline_graph 1)\<lparr>state := kS16StateOffline, to_offline := False\<rparr>))
                 2 (edge_to e)))
   \<and> walks_end waiting_graph 2 up_rank up_rank down_rank down_rank 3
   \<and> \<not> to_offline (waiting_graph 1) \<and> assert_free waiting_graph
   \<and> vtx_inst_can_come_up 6
        (waiting_graph (1 := (waiting_graph 1)\<lparr>state := kS16StateOffline, to_offline := False\<rparr>)) 1
       = Inr True
   \<and> vtx_process_state_change 6 waiting_graph [] 1 SC_OFFLINE 2
       = Inr (waiting_graph
                (1 := (waiting_graph 1)\<lparr>state := kS16StateOffline, to_offline := False\<rparr>),
              [s16note_new N_STATE_CHANGE SC_ONLINE \<lparr>svc = ''a'', inst = Some ''i''\<rparr> 2])
   \<and> walks_end mutual_exclusion_graph 2 mutual_stop_rank mutual_down_rank mutual_walk_rank
        mutual_sat_rank 4
   \<and> 2 * 4 \<le> (8::nat) \<and> \<not> to_offline (mutual_exclusion_graph 0)
   \<and> assert_free mutual_exclusion_graph
   \<and> (\<exists>ns. vtx_process_state_change 8 mutual_exclusion_graph [] 0 SC_OFFLINE 2
         = Inr (mutual_exclusion_graph
                  (0 := (mutual_exclusion_graph 0)\<lparr>state := kS16StateOffline, to_offline := False\<rparr>),
                ns))
   \<and> \<not> to_offline (excluding_graph 3)
   \<and> vtx_inst_can_come_up 8
        (excluding_graph (3 := (excluding_graph 3)\<lparr>state := kS16StateOffline, to_offline := False\<rparr>)) 3
       = Inl AssertFailed
   \<and> vtx_process_state_change 8 excluding_graph [] 3 SC_OFFLINE 2 = Inl AssertFailed"
proof -
  have l: "2 * 3 \<le> (6::nat)" "2 * 4 \<le> (8::nat)" by simp_all
  note wp = acyclic_walks_end [OF acyclic_pending_offline_graph, of 2]
  note ww = acyclic_walks_end [OF acyclic_waiting_graph, of 2]
  note wm = walks_end_mutual_exclusion_graph
  have f: "to_offline (pending_offline_graph 1)" "\<not> to_disable (pending_offline_graph 1)"
    by (simp_all add: pending_offline_graph_def example_vertex_defs)
  have g: "\<not> to_offline (waiting_graph 1)"
    "path (waiting_graph 1) = \<lparr>svc = ''a'', inst = Some ''i''\<rparr>"
    by (simp_all add: waiting_graph_def example_vertex_defs)
  have af: "assert_free waiting_graph"
    by (auto simp: assert_free_def waiting_graph_def example_vertex_defs)
  have k: "\<not> to_offline (excluding_graph 3)" "\<not> to_offline (mutual_exclusion_graph 0)"
    by (simp_all add: excluding_graph_def exclude_graph_def mutual_exclusion_graph_def
          example_vertex_defs)
  have up: "vtx_inst_can_come_up 6
        (waiting_graph (1 := (waiting_graph 1)\<lparr>state := kS16StateOffline, to_offline := False\<rparr>)) 1
       = Inr True"
    by (simp add: waiting_graph_def example_vertex_defs vtx_inst_can_come_up_def
          depgroup_body_def vtx_satisfies_def vtx_inst_satisfies_def sat_update_def
          eval_nat_numeral)
  have ab: "vtx_inst_can_come_up 8
        (excluding_graph (3 := (excluding_graph 3)\<lparr>state := kS16StateOffline, to_offline := False\<rparr>)) 3
       = Inl AssertFailed"
    by (simp add: excluding_graph_def exclude_graph_def example_vertex_defs
          vtx_inst_can_come_up_def depgroup_body_def vtx_satisfies_def vtx_inst_satisfies_def
          sat_update_def vtx_inst_satisfies_exclusion_def eval_nat_numeral)
  have evp: "vtx_process_state_change 6 pending_offline_graph [] 1 SC_OFFLINE 2
       = Inr (pending_offline_graph
                (1 := (pending_offline_graph 1)\<lparr>state := kS16StateOffline, to_offline := False\<rparr>),
              [s16note_new N_STATE_CHANGE SC_OFFLINE \<lparr>svc = ''b'', inst = Some ''j''\<rparr> 2])"
    by (simp add: pending_offline_graph_def example_vertex_defs vtx_process_state_change_def
          vtx_offline_def Let_def eval_nat_numeral)
  have evw: "vtx_process_state_change 6 waiting_graph [] 1 SC_OFFLINE 2
       = Inr (waiting_graph
                (1 := (waiting_graph 1)\<lparr>state := kS16StateOffline, to_offline := False\<rparr>),
              [s16note_new N_STATE_CHANGE SC_ONLINE \<lparr>svc = ''a'', inst = Some ''i''\<rparr> 2])"
    using up g
    by (simp add: sc_offline_unfold Let_def)
       (simp add: waiting_graph_def example_vertex_defs)
  note tp = C3_sc_offline [where h = pending_offline_graph and v = 1 and r = 2 and n = 6
      and q = "[]", unfolded Let_def]
  from tp [THEN conjunct2, THEN conjunct2, THEN conjunct1, rule_format, OF evp] f
  have 1: "\<exists>walk stop.
         [s16note_new N_STATE_CHANGE SC_OFFLINE \<lparr>svc = ''b'', inst = Some ''j''\<rparr> 2]
           = [] @ walk @ [] @ stop
         \<and> set walk = (\<Union>e\<in>set (dependencies (pending_offline_graph 1)).
               walk_notes 6 (pending_offline_graph
                 (1 := (pending_offline_graph 1)\<lparr>state := kS16StateOffline, to_offline := False\<rparr>))
                 2 (edge_to e))"
    by auto
  note tm = C3_sc_offline [where h = mutual_exclusion_graph and v = 0 and r = 2 and n = 8
      and q = "[]" and rs = mutual_stop_rank and ru = mutual_down_rank and rw = mutual_walk_rank
      and rd = mutual_sat_rank and N = 4, unfolded Let_def]
  from tm wm l(2) assert_free_mutual_exclusion_graph
  have 2: "\<exists>ns. vtx_process_state_change 8 mutual_exclusion_graph [] 0 SC_OFFLINE 2
         = Inr (mutual_exclusion_graph
                  (0 := (mutual_exclusion_graph 0)\<lparr>state := kS16StateOffline, to_offline := False\<rparr>),
                ns)"
    by blast
  note tx = C3_sc_offline [where h = excluding_graph and v = 3 and r = 2 and n = 8
      and q = "[]", unfolded Let_def]
  from tx k(1) ab
  have 3: "vtx_process_state_change 8 excluding_graph [] 3 SC_OFFLINE 2 = Inl AssertFailed"
    by blast
  from wp l(1) f(1) evp 1 ww g(1) af up evw wm l(2) k(2) assert_free_mutual_exclusion_graph 2
    k(1) ab 3
  show ?thesis by (intro conjI)
qed

section \<open>Verified properties of the unit state machine\<close>

lemma unit_retry_start_ignores_msecs:
  "unit_retry_start n s msecs = unit_retry_start n s msecs'"
  by (simp add: unit_retry_start_def)

text \<open>
  C9 (retry delay): the claim says that \<open>unit_retry_start unit msec\<close> schedules
  \<^verbatim>\<open>unit_restart_begin_cb\<close> after \<open>msec\<close> milliseconds, 5000 on the failure path. The
  function never reads its parameter: called with 5000 it does what it does with 500,
  and on the example unit the timer it registers has the delay 500.
\<close>

theorem C9_retry_start_delay:
  "unit_retry_start n s 5000 = unit_retry_start n s 500
   \<and> unit_retry_start 1 example_restartd 5000
       = Inr (example_restartd
                \<lparr>r_unit := example_unit
                   \<lparr>u_state := UkS16StateNone, u_target := UkS16StateNone,
                    u_meth_restart_timer_id := 1\<rparr>,
                 r_ts := [\<lparr>t_id = 1, t_msec = 500, t_callback = CB_unit_restart_begin_cb\<rparr>],
                 r_next_timer_id := 1\<rparr>)"
  by (simp add: unit_retry_start_def example_restartd_def example_unit_def unit_add_def
        unit_enter_state_def timerset_add_def Let_def)

text \<open>
  C10: \<open>unit_enter_online\<close> changes no field of the unit, so the state stays what it
  was before: entered through \<open>unit_enter_state\<close> with Online; entered from
  \<open>unit_enter_poststart\<close> when there is no PostStart method (a Simple unit whose
  start method forks successfully is left in state Start); and on the successful exit
  of the PostStart method, after which the unit is still in state PostStart.
\<close>

theorem C10_enter_online_keeps_state:
  "r_unit (unit_enter_online s) = r_unit s
   \<and> unit_enter_state pat s UkS16StateOnline = Inr (unit_enter_online s)
   \<and> (u_methods (r_unit s) UM_POSTSTART = None \<longrightarrow>
        unit_enter_poststart pat s = Inr (unit_enter_online s))
   \<and> (u_methods (r_unit s) UM_POSTSTART = None \<and> u_type (r_unit s) = U_SIMPLE
        \<and> r_fork_results s (r_forks s) \<noteq> 0 \<longrightarrow>
        (\<exists>s'. unit_enter_start pat s = Inr s' \<and> u_state (r_unit s') = US_START))
   \<and> (u_state (r_unit s) = US_POSTSTART \<and> pt_event info = kS16ProcessTrackerEventTypeExit
        \<and> pt_pid info = u_secondary_pid (r_unit s) \<and> pt_pid info \<noteq> u_main_pid (r_unit s)
        \<and> \<not> pt_abnormal info \<longrightarrow>
        (\<exists>s'. unit_ptevent n s info = Inr s' \<and> u_state (r_unit s') = US_POSTSTART))"
  by (auto simp: unit_enter_online_def unit_enter_state_def unit_enter_poststart_def
        unit_enter_start_def unit_fork_and_register_def
        unit_ptevent_def unit_stopping_def unit_deregister_pid_def timerset_del_def Let_def)

theorem C10_enter_online_keeps_state_witness:
  "u_methods (r_unit example_restartd) UM_POSTSTART = None
   \<and> unit_enter_poststart (unit_purge_and_target 1) example_restartd = Inr example_restartd
   \<and> u_type (r_unit example_restartd) = U_SIMPLE
   \<and> r_fork_results example_restartd (r_forks example_restartd) \<noteq> 0
   \<and> (\<exists>s'. unit_enter_start (unit_purge_and_target 1) example_restartd = Inr s'
            \<and> u_state (r_unit s') = US_START)
   \<and> u_state (r_unit poststart_restartd) = US_POSTSTART
   \<and> u_secondary_pid (r_unit poststart_restartd) = 101
   \<and> u_main_pid (r_unit poststart_restartd) = 100
   \<and> (\<exists>s'. unit_ptevent 1 poststart_restartd
              \<lparr>pt_event = kS16ProcessTrackerEventTypeExit, pt_pid = 101, pt_abnormal = False\<rparr>
            = Inr s' \<and> u_state (r_unit s') = US_POSTSTART)"
proof -
  have a: "u_methods (r_unit example_restartd) UM_POSTSTART = None"
    "unit_enter_online example_restartd = example_restartd"
    by (simp_all add: example_restartd_def example_unit_def unit_add_def unit_enter_online_def)
  have b: "u_state (r_unit poststart_restartd) = US_POSTSTART"
    "u_secondary_pid (r_unit poststart_restartd) = 101"
    "u_main_pid (r_unit poststart_restartd) = 100"
    by (simp_all add: poststart_restartd_def)
  have c: "u_type (r_unit example_restartd) = U_SIMPLE"
    "r_fork_results example_restartd (r_forks example_restartd) \<noteq> 0"
    by (simp_all add: example_restartd_def example_unit_def unit_add_def)
  from C10_enter_online_keeps_state [of example_restartd "unit_purge_and_target 1"] a
  have 1: "unit_enter_poststart (unit_purge_and_target 1) example_restartd = Inr example_restartd"
    by simp
  from C10_enter_online_keeps_state [of example_restartd "unit_purge_and_target 1"] a(1) c
  have 3: "\<exists>s'. unit_enter_start (unit_purge_and_target 1) example_restartd = Inr s'
            \<and> u_state (r_unit s') = US_START"
    by simp
  from C10_enter_online_keeps_state [of poststart_restartd _
      "\<lparr>pt_event = kS16ProcessTrackerEventTypeExit, pt_pid = 101, pt_abnormal = False\<rparr>" 1] b
  have 2: "\<exists>s'. unit_ptevent 1 poststart_restartd
              \<lparr>pt_event = kS16ProcessTrackerEventTypeExit, pt_pid = 101, pt_abnormal = False\<rparr>
            = Inr s' \<and> u_state (r_unit s') = US_POSTSTART"
    by simp
  from a(1) b c 1 2 3 show ?thesis by (intro conjI)
qed

subsection \<open>The bounded restart loop\<close>



lemma prestart_runningD:
  assumes "prestart_running s"
  shows "u_state (r_unit s) = US_PRESTART" "u_methods (r_unit s) UM_PRESTART \<noteq> None"
    "u_pids (r_unit s) = [u_main_pid (r_unit s)]"
    "u_main_pid (r_unit s) \<in> set (r_watched s)"
    "\<exists>k<r_forks s. u_main_pid (r_unit s) = r_fork_results s k"
    "u_timer_id (r_unit s) \<noteq> 0"
    "r_ts s = [\<lparr>t_id = u_timer_id (r_unit s), t_msec = 2000, t_callback = CB_unit_timer_event\<rparr>]"
  using assms by (auto simp: prestart_running_def)

lemma forks_succeedD:
  assumes "forks_succeed s"
  shows "inj (r_fork_results s)" "r_fork_results s k \<noteq> 0"
  using assms by (auto simp: forks_succeed_def)



text \<open>A PreStart process that does not exit on SIGTERM: after the timeout the unit (without
  stop method) stays in StopTerm, and the StopTerm timer leaves it there.\<close>

lemma timeout_holds_in_stopterm:
  assumes "prestart_running s" and "forks_succeed s" and "u_methods (r_unit s) UM_STOP = None"
    and "\<not> stops (u_main_pid (r_unit s))"
  shows "\<exists>s' s''. fail_prestart (Suc n) stops Timeout s = Inr s'
     \<and> u_state (r_unit s') = US_STOPTERM
     \<and> (u_main_pid (r_unit s), SIGTERM) \<in> set (r_signals s')
     \<and> timerset_expire (Suc n) s' (u_timer_id (r_unit s')) = Inr s''
     \<and> u_state (r_unit s'') = US_STOPTERM \<and> r_ts s'' = []"
proof -
  note u = prestart_runningD [OF assms(1)]
  note f = forks_succeedD [OF assms(2)]
  from u(5) f(2) have pos: "u_main_pid (r_unit s) \<noteq> 0" by auto
  from u f assms(3,4) pos show ?thesis
    by (simp add: fail_prestart_def failure_event_def timerset_expire_def tracker_exit_def
          unit_timer_event_def unit_stopping_def timerset_del_def unit_enter_stop_def
          unit_enter_stopterm_def kill_def kill_all_def UnitTimerReg_def timerset_add_def
          settle_def pending_restarts_def asked_to_stop_def Let_def)
qed








end
